(* ===== verification/Prelude.thy ===== *)
theory Prelude
  imports
    Complex_Main
    "HOL-Library.Product_Lexorder"
    "HOL-Library.List_Lexorder"
    "HOL-Library.Char_ord"
begin

text \<open>
  Shared material of the event-ledger development: the named collections that the component
  theories fill, tables keyed by a primary key (a list of rows, as a database table is, with
  the laws of SQL primary keys), the two interface locales that the components interpret
  (\<open>keyed_table\<close> and \<open>invariant_machine\<close>), and generic lemmas on lists and sums.
\<close>

named_theorems session_simps \<open>unfolding of session writes and commits\<close>
named_theorems table_simps \<open>lookup after a table operation\<close>
named_theorems frame_simps \<open>what an operation leaves alone\<close>

section \<open>Tables keyed by a primary key\<close>

text \<open>
  A table is the list of its rows in insertion order; \<open>key\<close> reads the primary key of a row.
  \<open>tget\<close> is the lookup by primary key, \<open>tins\<close> an INSERT (\<open>None\<close> when the primary key is
  taken), \<open>tupd\<close> an UPDATE of one row (\<open>None\<close> when no row has the key), \<open>tdel\<close> a DELETE.
\<close>

definition tget :: "('r \<Rightarrow> 'k) \<Rightarrow> 'k \<Rightarrow> 'r list \<Rightarrow> 'r option" where
  "tget key k rows = find (\<lambda>r. key r = k) rows"

definition tins :: "('r \<Rightarrow> 'k) \<Rightarrow> 'r \<Rightarrow> 'r list \<Rightarrow> 'r list option" where
  "tins key r rows = (case tget key (key r) rows of None \<Rightarrow> Some (rows @ [r]) | Some _ \<Rightarrow> None)"

definition tupd :: "('r \<Rightarrow> 'k) \<Rightarrow> 'k \<Rightarrow> ('r \<Rightarrow> 'r) \<Rightarrow> 'r list \<Rightarrow> 'r list option" where
  "tupd key k f rows = (case tget key k rows of None \<Rightarrow> None
     | Some _ \<Rightarrow> Some (map (\<lambda>r. if key r = k then f r else r) rows))"

definition tdel :: "('r \<Rightarrow> 'k) \<Rightarrow> 'k \<Rightarrow> 'r list \<Rightarrow> 'r list" where
  "tdel key k rows = filter (\<lambda>r. key r \<noteq> k) rows"

definition uniq :: "('r \<Rightarrow> 'k) \<Rightarrow> 'r list \<Rightarrow> bool" where
  "uniq key rows \<longleftrightarrow> distinct (map key rows)"

lemma tget_Nil [simp]: "tget key k [] = None"
  by (simp add: tget_def)

lemma tget_Cons: "tget key k (r # rows) = (if key r = k then Some r else tget key k rows)"
  by (simp add: tget_def)

lemma tget_append: "tget key k (xs @ ys) = (case tget key k xs of None \<Rightarrow> tget key k ys | Some r \<Rightarrow> Some r)"
  by (induction xs) (auto simp: tget_Cons)

lemma tget_Some: "tget key k rows = Some r \<Longrightarrow> r \<in> set rows \<and> key r = k"
  by (induction rows) (auto simp: tget_Cons split: if_splits)

lemma tget_None: "tget key k rows = None \<longleftrightarrow> k \<notin> key ` set rows"
  by (induction rows) (auto simp: tget_Cons)

lemma tget_unique: "uniq key rows \<Longrightarrow> r \<in> set rows \<Longrightarrow> tget key (key r) rows = Some r"
  by (induction rows) (auto simp: tget_Cons uniq_def)

lemma tget_iff: "uniq key rows \<Longrightarrow> tget key k rows = Some r \<longleftrightarrow> r \<in> set rows \<and> key r = k"
  using tget_Some tget_unique by metis

lemma tget_map_upd:
  assumes "\<And>r. key (f r) = key r"
  shows "tget key k (map (\<lambda>r. if key r = j then f r else r) rows)
       = (if k = j then map_option f (tget key k rows) else tget key k rows)"
  using assms by (induction rows) (auto simp: tget_Cons)

lemma tget_filter_key:
  "tget key k (filter (\<lambda>r. key r \<noteq> j) rows) = (if k = j then None else tget key k rows)"
  by (induction rows) (auto simp: tget_Cons)

lemma tget_tdel [table_simps]: "tget key k (tdel key j rows) = (if k = j then None else tget key k rows)"
  by (simp add: tdel_def tget_filter_key)

lemma tins_Some: "tins key r rows = Some rows' \<longleftrightarrow> tget key (key r) rows = None \<and> rows' = rows @ [r]"
  by (auto simp: tins_def split: option.splits)

lemma tins_None: "tins key r rows = None \<longleftrightarrow> tget key (key r) rows \<noteq> None"
  by (auto simp: tins_def split: option.splits)

lemma tget_tins [table_simps]:
  "tins key r rows = Some rows' \<Longrightarrow> tget key k rows' = (if k = key r then Some r else tget key k rows)"
  by (auto simp: tins_Some tget_append tget_Cons split: option.splits)

lemma tupd_None: "tupd key k f rows = None \<longleftrightarrow> tget key k rows = None"
  by (auto simp: tupd_def split: option.splits)

lemma tget_tupd:
  assumes "tupd key j f rows = Some rows'" and "\<And>r. key (f r) = key r"
  shows "tget key k rows' = (if k = j then map_option f (tget key k rows) else tget key k rows)"
  using assms by (auto simp: tupd_def tget_map_upd split: option.splits)

lemma uniq_Nil [simp]: "uniq key []"
  by (simp add: uniq_def)

lemma uniq_tins: "uniq key rows \<Longrightarrow> tins key r rows = Some rows' \<Longrightarrow> uniq key rows'"
  by (auto simp: tins_Some uniq_def tget_None)

lemma uniq_tdel: "uniq key rows \<Longrightarrow> uniq key (tdel key k rows)"
  by (induction rows) (auto simp: uniq_def tdel_def)

lemma map_key_upd:
  assumes "\<And>r. key (f r) = key r"
  shows "map key (map (\<lambda>r. if key r = k then f r else r) rows) = map key rows"
  using assms by (induction rows) auto

lemma uniq_tupd:
  assumes "uniq key rows" and "tupd key k f rows = Some rows'" and "\<And>r. key (f r) = key r"
  shows "uniq key rows'"
proof -
  from assms(2) have rows': "rows' = map (\<lambda>r. if key r = k then f r else r) rows"
    by (auto simp: tupd_def split: option.splits)
  have "map key rows' = map key rows"
    unfolding rows' by (rule map_key_upd) (rule assms(3))
  with assms(1) show ?thesis by (simp only: uniq_def)
qed

lemma length_filter_keys:
  assumes "uniq key rows" and "distinct ks" and "set ks \<subseteq> key ` set rows"
  shows "length (filter (\<lambda>r. key r \<notin> set ks) rows) + length ks = length rows"
proof -
  let ?in = "filter (\<lambda>r. key r \<in> set ks) rows"
  have "distinct (map key ?in)"
    using assms(1) by (auto simp: uniq_def distinct_map intro: inj_on_subset)
  moreover have "set (map key ?in) = set ks" using assms(3) by auto
  ultimately have "length (map key ?in) = length ks"
    using assms(2) by (metis distinct_card)
  then show ?thesis using sum_length_filter_compl [of "\<lambda>r. key r \<in> set ks" rows] by simp
qed

subsection \<open>The contract of a keyed table\<close>

text \<open>
  What the services rely on when they use a primary key: a lookup after an insert, the refusal
  of a second insert under the same key, and uniqueness kept. Each table of the two databases
  interprets it.
\<close>

locale keyed_table =
  fixes key :: "'r \<Rightarrow> 'k"
    and get :: "'k \<Rightarrow> 't \<Rightarrow> 'r option"
    and ins :: "'r \<Rightarrow> 't \<Rightarrow> 't option"
    and wf :: "'t \<Rightarrow> bool"
  assumes get_ins: "ins r t = Some t' \<Longrightarrow> get k t' = (if k = key r then Some r else get k t)"
    and ins_taken: "ins r t = None \<longleftrightarrow> get (key r) t \<noteq> None"
    and ins_wf: "wf t \<Longrightarrow> ins r t = Some t' \<Longrightarrow> wf t'"
begin

lemma ins_get_own: "ins r t = Some t' \<Longrightarrow> get (key r) t' = Some r"
  by (simp add: get_ins)

lemma ins_fresh: "ins r t = Some t' \<Longrightarrow> get (key r) t = None"
  using ins_taken by (metis option.distinct(1))

lemma ins_twice: "ins r t = Some t' \<Longrightarrow> key q = key r \<Longrightarrow> ins q t' = None"
  by (simp add: ins_taken get_ins)

lemma ins_keeps: "get k t = Some q \<Longrightarrow> ins r t = Some t' \<Longrightarrow> get k t' = Some q"
  using ins_fresh by (auto simp: get_ins)

end

section \<open>Machines and invariants\<close>

text \<open>
  A component that is driven by a sequence of inputs: \<open>step i s\<close> is the state after input
  \<open>i\<close>, \<open>ok i\<close> what the environment promises of an input, \<open>inv\<close> the invariant.
\<close>

locale invariant_machine =
  fixes step :: "'i \<Rightarrow> 's \<Rightarrow> 's"
    and ok :: "'i \<Rightarrow> bool"
    and inv :: "'s \<Rightarrow> bool"
  assumes step_inv: "inv s \<Longrightarrow> ok i \<Longrightarrow> inv (step i s)"
begin

lemma run_inv: "inv s \<Longrightarrow> list_all ok is \<Longrightarrow> inv (fold step is s)"
  by (induction "is" arbitrary: s) (auto simp: step_inv)

lemma run_prefix_inv: "inv s \<Longrightarrow> list_all ok is \<Longrightarrow> inv (fold step (take n is) s)"
  by (rule run_inv) (auto simp: list_all_iff dest: in_set_takeD)

end

section \<open>Lists and sums\<close>

lemma sum_list_filter_snoc:
  "sum_list (map f (filter p (xs @ [x]))) = sum_list (map f (filter p xs)) + (if p x then f x else (0::int))"
  by simp

lemma abs_sum_list_le:
  fixes f :: "'a \<Rightarrow> int"
  assumes "\<And>x. x \<in> set xs \<Longrightarrow> \<bar>f x\<bar> \<le> g x"
  shows "\<bar>sum_list (map f (filter p xs))\<bar> \<le> sum_list (map g xs)"
  using assms
proof (induction xs)
  case Nil
  then show ?case by simp
next
  case (Cons x xs)
  from Cons.prems have "\<bar>f x\<bar> \<le> g x" by simp
  moreover from Cons have "\<bar>sum_list (map f (filter p xs))\<bar> \<le> sum_list (map g xs)" by simp
  ultimately show ?case by auto
qed

end
