(* ===== verification/PyTypes.thy ===== *)
theory PyTypes
  imports Prelude
begin

text \<open>
  The Python values both services compute with, and the platform they run on.

  \<open>money\<close> counts ten-thousandths of a currency unit: every \<open>Decimal\<close> that reaches the service
  code is a multiple of \<open>0.0001\<close> (the request models declare \<open>decimal_places=4\<close>, the columns are
  \<open>Numeric(19, 4)\<close>), and sums of at most 20-digit numbers are exact in the default decimal
  context of 28 digits. \<open>datetime\<close> is a wall clock in microseconds with an optional UTC offset,
  \<open>json\<close> what \<open>json.loads\<close> returns with Python's \<open>==\<close> on it.

  \<open>platform\<close> collects what the code gets from libraries that are not in the repository and
  that the model leaves open: what a \<open>Numeric(19, 4)\<close> and a \<open>DateTime(timezone=True)\<close> column
  give back for a stored value, the \<open>k\<close>-th \<open>uuid4().hex\<close>, and the Unicode tables behind
  \<open>str.upper\<close>, \<open>str.isalpha\<close> and the text of a value. Strings are character lists, one character
  for one code point below 256.
\<close>

type_synonym money = int

section \<open>Decimal request values\<close>

text \<open>\<open>Decimal c e\<close> is the number \<open>c * 10 ^ e\<close>.\<close>

datatype decimal = Decimal int int

fun dec_units :: "decimal \<Rightarrow> money option" where
  "dec_units (Decimal c e) =
     (if - 4 \<le> e then Some (c * 10 ^ nat (e + 4))
      else if 10 ^ nat (- 4 - e) dvd c then Some (c div 10 ^ nat (- 4 - e))
      else None)"

section \<open>datetime\<close>

record datetime =
  wall :: int
  offset :: "int option"

definition utc_naive :: "datetime \<Rightarrow> datetime" where
  "utc_naive v = (case offset v of None \<Rightarrow> v
     | Some off \<Rightarrow> v\<lparr>wall := wall v - off, offset := None\<rparr>)"

text \<open>
  The instant a timestamp stands for, a naive one read as UTC. It is what \<open>utc_naive\<close> compares
  and what the stored columns are ordered by.
\<close>

definition instant :: "datetime \<Rightarrow> int" where
  "instant v = (case offset v of None \<Rightarrow> wall v | Some off \<Rightarrow> wall v - off)"

definition utc :: "int \<Rightarrow> datetime" where
  "utc t = \<lparr>wall = t, offset = Some 0\<rparr>"

definition naive :: "int \<Rightarrow> datetime" where
  "naive t = \<lparr>wall = t, offset = None\<rparr>"

lemma instant_utc [simp]: "instant (utc t) = t"
  by (simp add: instant_def utc_def)

lemma instant_naive [simp]: "instant (naive t) = t"
  by (simp add: instant_def naive_def)

lemma utc_naive_naive: "utc_naive v = naive (instant v)"
  by (cases v) (auto simp: utc_naive_def instant_def naive_def split: option.splits)

lemma utc_naive_eq_iff: "utc_naive v = utc_naive w \<longleftrightarrow> instant v = instant w"
  by (simp add: utc_naive_naive) (auto simp: naive_def)

text \<open>\<open>value + timedelta(seconds=s)\<close>: the seconds rounded to whole microseconds, ties to even.\<close>

definition round_half_even :: "rat \<Rightarrow> int" where
  "round_half_even x = (let f = floor x; d = x - of_int f in
     if d < 1 / 2 then f else if d > 1 / 2 then f + 1 else if even f then f else f + 1)"

definition plus_seconds :: "datetime \<Rightarrow> rat \<Rightarrow> datetime" where
  "plus_seconds v s = v\<lparr>wall := wall v + round_half_even (s * 1000000)\<rparr>"

lemma round_half_even_int [simp]: "round_half_even (of_int n) = n"
  by (simp add: round_half_even_def)

lemma round_half_even_nonneg: "0 \<le> x \<Longrightarrow> 0 \<le> round_half_even x"
  by (auto simp: round_half_even_def Let_def)

lemma round_half_even_le: "x \<le> of_int n \<Longrightarrow> round_half_even x \<le> n"
proof -
  assume le: "x \<le> of_int n"
  show ?thesis
  proof (cases "x = of_int n")
    case True
    then show ?thesis by simp
  next
    case False
    with le have "floor x < n" by (simp add: floor_less_iff)
    then show ?thesis by (auto simp: round_half_even_def Let_def)
  qed
qed

lemma instant_plus_seconds: "instant (plus_seconds v s) = instant v + round_half_even (s * 1000000)"
  by (simp add: instant_def plus_seconds_def split: option.splits)

section \<open>Decimal texts of integers\<close>

fun str_nat :: "nat \<Rightarrow> string" where
  "str_nat n = (if n < 10 then [char_of (48 + n)] else str_nat (n div 10) @ [char_of (48 + n mod 10)])"

declare str_nat.simps [simp del]

definition str_int :: "int \<Rightarrow> string" where
  "str_int i = (if i < 0 then CHR ''-'' # str_nat (nat (- i)) else str_nat (nat i))"

section \<open>JSON values\<close>

datatype json =
    JNull
  | JBool bool
  | JNum rat
  | JStr string
  | JArr "json list"
  | JObj "(string \<times> json) list"

text \<open>
  Python's \<open>==\<close> on decoded JSON: a bool equals the integer it stands for, two dicts are equal
  when they have the same keys with equal values, in any order.
\<close>

fun py_eq :: "json \<Rightarrow> json \<Rightarrow> bool" where
  "py_eq JNull JNull = True"
| "py_eq (JBool a) (JBool b) = (a = b)"
| "py_eq (JBool a) (JNum n) = (n = (if a then 1 else 0))"
| "py_eq (JNum n) (JBool b) = (n = (if b then 1 else 0))"
| "py_eq (JNum n) (JNum m) = (n = m)"
| "py_eq (JStr s) (JStr t) = (s = t)"
| "py_eq (JArr []) (JArr []) = True"
| "py_eq (JArr (x # xs)) (JArr (y # ys)) = (py_eq x y \<and> py_eq (JArr xs) (JArr ys))"
| "py_eq (JObj xs) (JObj ys) = (length xs = length ys \<and>
     list_all (\<lambda>(k, v). case map_of ys k of None \<Rightarrow> False | Some w \<Rightarrow> py_eq v w) xs)"
| "py_eq _ _ = False"

text \<open>\<open>bool(value)\<close> and \<open>value.get(key, default)\<close>.\<close>

fun truthy :: "json \<Rightarrow> bool" where
  "truthy JNull = False"
| "truthy (JBool b) = b"
| "truthy (JNum n) = (n \<noteq> 0)"
| "truthy (JStr s) = (s \<noteq> [])"
| "truthy (JArr xs) = (xs \<noteq> [])"
| "truthy (JObj xs) = (xs \<noteq> [])"

definition dict_get :: "(string \<times> json) list \<Rightarrow> string \<Rightarrow> json \<Rightarrow> json" where
  "dict_get d k dflt = (case map_of d k of None \<Rightarrow> dflt | Some v \<Rightarrow> v)"

text \<open>A decoded JSON value has distinct keys in every object.\<close>

fun wf_json :: "json \<Rightarrow> bool" where
  "wf_json (JArr xs) = list_all wf_json xs"
| "wf_json (JObj xs) = (distinct (map fst xs) \<and> list_all (\<lambda>(k, v). wf_json v) xs)"
| "wf_json _ = True"

lemma py_eq_arr_refl: "(\<And>x. x \<in> set xs \<Longrightarrow> py_eq x x) \<Longrightarrow> py_eq (JArr xs) (JArr xs)"
  by (induction xs) auto

lemma py_eq_refl: "wf_json v \<Longrightarrow> py_eq v v"
proof (induction v)
  case (JArr xs)
  then show ?case by (intro py_eq_arr_refl) (auto simp: list_all_iff)
next
  case (JObj xs)
  have "py_eq v v" if "(k, v) \<in> set xs" for k v
    using JObj that by (force simp: list_all_iff snds.simps)
  with JObj.prems show ?case
    by (auto simp: list_all_iff)
qed auto

section \<open>The platform\<close>

text \<open>
  The constraints a request model declares on a field, as the reasons of a rejection; their
  texts are the validation library's and come from the platform.
\<close>

datatype violation =
    TooShort nat
  | TooLong nat
  | NotAMember
  | NotGreaterThan int
  | TooManyDigits
  | ValueError string

record platform =
  num_col :: "money \<Rightarrow> money"
  ts_col :: "datetime \<Rightarrow> datetime"
  uuid_hex :: "nat \<Rightarrow> string"
  str_upper :: "string \<Rightarrow> string"
  str_isalpha :: "string \<Rightarrow> bool"
  py_str :: "json \<Rightarrow> string"
  violation_msg :: "violation \<Rightarrow> string"

text \<open>
  The documented behaviour of the two columns, as hypotheses of the theorems that need it: a
  \<open>Numeric(19, 4)\<close> column returns the numbers below the bound \<open>B\<close> exactly, a timestamp
  column preserves the instant of \<open>t\<close>.
\<close>

definition num_exact :: "platform \<Rightarrow> money \<Rightarrow> bool" where
  "num_exact P B \<longleftrightarrow> (\<forall>x. \<bar>x\<bar> < B \<longrightarrow> num_col P x = x)"

definition ts_exact :: "platform \<Rightarrow> datetime \<Rightarrow> bool" where
  "ts_exact P t \<longleftrightarrow> instant (ts_col P t) = instant t"

text \<open>ASCII instances of the Unicode tables.\<close>

definition ascii_upper_char :: "char \<Rightarrow> char" where
  "ascii_upper_char c = (if CHR ''a'' \<le> c \<and> c \<le> CHR ''z'' then char_of (of_char c - 32 :: nat) else c)"

definition ascii_letter :: "char \<Rightarrow> bool" where
  "ascii_letter c \<longleftrightarrow> (CHR ''A'' \<le> c \<and> c \<le> CHR ''Z'') \<or> (CHR ''a'' \<le> c \<and> c \<le> CHR ''z'')"

definition ascii_upper :: "string \<Rightarrow> string" where
  "ascii_upper s = map ascii_upper_char s"

definition ascii_isalpha :: "string \<Rightarrow> bool" where
  "ascii_isalpha s \<longleftrightarrow> s \<noteq> [] \<and> list_all ascii_letter s"

text \<open>
  Two concrete platforms for the witnesses: \<open>exact_platform\<close> returns stored values
  unchanged; \<open>sqlite_platform\<close> is a backend without time zones (as SQLAlchemy documents for
  SQLite), whose timestamp column keeps the wall clock and drops the offset.
\<close>

definition exact_platform :: platform where
  "exact_platform = \<lparr>num_col = (\<lambda>x. x), ts_col = (\<lambda>t. t), uuid_hex = (\<lambda>k. replicate k CHR ''0''),
     str_upper = ascii_upper, str_isalpha = ascii_isalpha, py_str = (\<lambda>_. ''''),
     violation_msg = (\<lambda>_. ''invalid'')\<rparr>"

definition sqlite_platform :: platform where
  "sqlite_platform = exact_platform\<lparr>ts_col := (\<lambda>t. t\<lparr>offset := None\<rparr>)\<rparr>"

lemma num_exactD: "num_exact P B \<Longrightarrow> \<bar>x\<bar> < B \<Longrightarrow> num_col P x = x"
  by (simp add: num_exact_def)

lemma exact_platform_sel [simp]:
  "num_col exact_platform x = x" "ts_col exact_platform t = t"
  "str_upper exact_platform = ascii_upper" "str_isalpha exact_platform = ascii_isalpha"
  "num_exact exact_platform B" "ts_exact exact_platform t"
  by (simp_all add: exact_platform_def num_exact_def ts_exact_def)

lemma sqlite_platform_sel [simp]:
  "num_col sqlite_platform x = x" "ts_col sqlite_platform t = t\<lparr>offset := None\<rparr>"
  "num_exact sqlite_platform B"
  by (simp_all add: sqlite_platform_def num_exact_def)

text \<open>What a request handler reads from its surroundings: the clock and the current trace id.\<close>

record env =
  now :: datetime
  trace :: string

end
