(* ===== verification/Web.thy ===== *)
theory Web
  imports PyTypes
begin

text \<open>
  HTTP responses, the trace identifier of a request (\<open>app/core/tracing.py\<close>) and the error
  contract (\<open>app/core/errors.py\<close>). The two services carry the same code here, so one model
  serves both; the map names the gateway's files.
\<close>

section \<open>Responses and exceptions\<close>

record http_resp =
  status_code :: int
  headers :: "(string \<times> string) list"
  body :: json

text \<open>\<open>response.headers[name] = value\<close>: replace the header, or append it.\<close>

definition set_header :: "string \<Rightarrow> string \<Rightarrow> (string \<times> string) list \<Rightarrow> (string \<times> string) list" where
  "set_header n v hs = (if n \<in> fst ` set hs then map (\<lambda>(m, w). if m = n then (m, v) else (m, w)) hs
     else hs @ [(n, v)])"

definition add_header :: "string \<Rightarrow> string \<Rightarrow> http_resp \<Rightarrow> http_resp" where
  "add_header n v r = r\<lparr>headers := set_header n v (headers r)\<rparr>"

definition header :: "string \<Rightarrow> http_resp \<Rightarrow> string option" where
  "header n r = map_of (headers r) n"

lemma map_of_replace:
  "map_of (map (\<lambda>(m, w). if m = n then (m, v) else (m, w)) hs) k
   = (if k = n then map_option (\<lambda>_. v) (map_of hs k) else map_of hs k)"
  by (induction hs) auto

lemma map_of_set_header: "map_of (set_header n v hs) m = (if m = n then Some v else map_of hs m)"
proof (cases "map_of hs n")
  case None
  then have "n \<notin> fst ` set hs" by (simp add: map_of_eq_None_iff)
  then have "set_header n v hs = hs @ [(n, v)]" by (simp only: set_header_def if_False)
  with None show ?thesis by (simp add: map_add_def split: option.split)
next
  case (Some w)
  then have "n \<in> fst ` set hs" by (metis map_of_eq_None_iff option.distinct(1))
  then have "set_header n v hs = map (\<lambda>(m, w). if m = n then (m, v) else (m, w)) hs"
    by (simp only: set_header_def if_True)
  with Some show ?thesis by (simp only: map_of_replace) simp
qed

lemma header_add_header [simp]: "header m (add_header n v r) = (if m = n then Some v else header m r)"
  by (simp add: header_def add_header_def map_of_set_header)

lemma add_header_sel [simp]:
  "status_code (add_header n v r) = status_code r" "body (add_header n v r) = body r"
  by (simp_all add: add_header_def)

text \<open>The exceptions that reach the application's handlers.\<close>

datatype exn =
    HTTPException int json
  | RequestValidationError "(string list \<times> string) list"
  | SQLAlchemyError
  | OtherException string

section \<open>Trace identifiers\<close>

text \<open>\<open>TRACE_RE.fullmatch(value)\<close> for \<open>^[A-Za-z0-9._:-]{1,128}$\<close>.\<close>

definition trace_char :: "char \<Rightarrow> bool" where
  "trace_char c \<longleftrightarrow> ascii_letter c \<or> (CHR ''0'' \<le> c \<and> c \<le> CHR ''9'') \<or> c \<in> set ''._:-''"

definition trace_re :: "string \<Rightarrow> bool" where
  "trace_re v \<longleftrightarrow> 1 \<le> length v \<and> length v \<le> 128 \<and> list_all trace_char v"

text \<open>\<open>fresh\<close> is the \<open>uuid.uuid4().hex\<close> that is drawn when the value is rejected.\<close>

definition normalize_trace_id :: "string \<Rightarrow> string option \<Rightarrow> string" where
  "normalize_trace_id fresh value = (case value of None \<Rightarrow> fresh
     | Some v \<Rightarrow> if v \<noteq> [] \<and> trace_re v then v else fresh)"

text \<open>The context variable \<open>trace_id_ctx\<close> and the attributes of the current span.\<close>

record trace_state =
  ctx_var :: string
  span_recording :: bool
  span_trace :: "nat option"
  span_attrs :: "(string \<times> string) list"

definition current_trace_id :: "'a trace_state_scheme \<Rightarrow> string" where
  "current_trace_id ts = ctx_var ts"

definition hex_digit :: "nat \<Rightarrow> char" where
  "hex_digit d = ''0123456789abcdef'' ! (d mod 16)"

text \<open>The \<open>n\<close> lowest hexadecimal digits of \<open>x\<close>, highest first: \<open>f\"{x:032x}\"\<close> for \<open>n = 32\<close>.\<close>

fun hex_pad :: "nat \<Rightarrow> nat \<Rightarrow> string" where
  "hex_pad 0 x = []"
| "hex_pad (Suc n) x = hex_pad n (x div 16) @ [hex_digit x]"

definition current_otel_trace_id :: "'a trace_state_scheme \<Rightarrow> string option" where
  "current_otel_trace_id ts = (case span_trace ts of None \<Rightarrow> None | Some t \<Rightarrow> Some (hex_pad 32 t))"

text \<open>
  \<open>with trace_context(trace_id): body\<close>: the body runs under the normalised id, and the
  variable is reset however the body ends.
\<close>

definition trace_context ::
  "string \<Rightarrow> string \<Rightarrow> ('s trace_state_scheme \<Rightarrow> 'a \<times> 's trace_state_scheme) \<Rightarrow> 's trace_state_scheme
    \<Rightarrow> 'a \<times> 's trace_state_scheme" where
  "trace_context fresh trace_id bdy ts =
     (let (r, ts') = bdy (ts\<lparr>ctx_var := normalize_trace_id fresh (Some trace_id)\<rparr>)
      in (r, ts'\<lparr>ctx_var := ctx_var ts\<rparr>))"

text \<open>
  The middleware: on the way in it sets the variable and, on a recording span, the attribute
  \<open>app.correlation_id\<close>; on the way out it adds the two response headers, and in every case it
  resets the variable.
\<close>

definition enter_trace :: "string \<Rightarrow> 'a trace_state_scheme \<Rightarrow> 'a trace_state_scheme" where
  "enter_trace correlation_id ts =
     (let ts1 = ts\<lparr>ctx_var := correlation_id\<rparr> in
      if span_recording ts1
      then ts1\<lparr>span_attrs := span_attrs ts1 @ [(''app.correlation_id'', correlation_id)]\<rparr> else ts1)"

definition trace_headers :: "string \<Rightarrow> 'a trace_state_scheme \<Rightarrow> http_resp \<Rightarrow> http_resp" where
  "trace_headers correlation_id ts r =
     (let r1 = add_header ''X-Trace-ID'' correlation_id r in
      case current_otel_trace_id ts of None \<Rightarrow> r1
      | Some t \<Rightarrow> add_header ''X-OpenTelemetry-Trace-ID'' t r1)"

definition tracing_middleware ::
  "string \<Rightarrow> string option \<Rightarrow> ('s trace_state_scheme \<Rightarrow> (exn + http_resp) \<times> 's trace_state_scheme)
    \<Rightarrow> 's trace_state_scheme \<Rightarrow> (exn + http_resp) \<times> 's trace_state_scheme" where
  "tracing_middleware fresh x_trace_id call_next ts =
     (let correlation_id = normalize_trace_id fresh x_trace_id;
          (res, ts') = call_next (enter_trace correlation_id ts)
      in ((case res of Inl e \<Rightarrow> Inl e | Inr r \<Rightarrow> Inr (trace_headers correlation_id ts' r)),
          ts'\<lparr>ctx_var := ctx_var ts\<rparr>))"

text \<open>The account service's own copies, which its applications install: equal to the gateway's.\<close>

definition account_normalize_trace_id :: "string \<Rightarrow> string option \<Rightarrow> string" where
  "account_normalize_trace_id fresh value =
     (case value of
        Some v \<Rightarrow> if v \<noteq> [] \<and> trace_re v then v else fresh
      | None \<Rightarrow> fresh)"

definition account_tracing_middleware ::
  "string \<Rightarrow> string option \<Rightarrow> ('s trace_state_scheme \<Rightarrow> (exn + http_resp) \<times> 's trace_state_scheme)
    \<Rightarrow> 's trace_state_scheme \<Rightarrow> (exn + http_resp) \<times> 's trace_state_scheme" where
  "account_tracing_middleware fresh x_trace_id call_next ts =
     (let correlation_id = account_normalize_trace_id fresh x_trace_id;
          token = ctx_var ts;
          (res, ts') = call_next (enter_trace correlation_id ts)
      in ((case res of Inl e \<Rightarrow> Inl e | Inr r \<Rightarrow> Inr (trace_headers correlation_id ts' r)),
          ts'\<lparr>ctx_var := token\<rparr>))"

lemma account_tracing_same: "account_tracing_middleware = tracing_middleware"
  by (intro ext) (simp add: account_tracing_middleware_def tracing_middleware_def
      account_normalize_trace_id_def normalize_trace_id_def)

lemma enter_trace_ctx [simp]: "current_trace_id (enter_trace c ts) = c"
  by (simp add: enter_trace_def current_trace_id_def Let_def)

lemma trace_headers_sel [simp]:
  "status_code (trace_headers c ts r) = status_code r" "body (trace_headers c ts r) = body r"
  "header ''X-Trace-ID'' (trace_headers c ts r) = Some c"
  by (simp_all add: trace_headers_def Let_def split: option.splits)

lemma tracing_middleware_run:
  assumes "call_next (enter_trace (normalize_trace_id fresh x) ts) = (res, ts')"
  shows "tracing_middleware fresh x call_next ts =
     ((case res of Inl e \<Rightarrow> Inl e | Inr r \<Rightarrow> Inr (trace_headers (normalize_trace_id fresh x) ts' r)),
      ts'\<lparr>ctx_var := ctx_var ts\<rparr>)"
  using assms by (simp add: tracing_middleware_def)

lemma normalize_trace_id_valid:
  "trace_re fresh \<Longrightarrow> trace_re (normalize_trace_id fresh v)"
  by (auto simp: normalize_trace_id_def split: option.splits)

lemma normalize_trace_id_accepts: "trace_re v \<Longrightarrow> normalize_trace_id fresh (Some v) = v"
  by (auto simp: normalize_trace_id_def trace_re_def)

lemma normalize_trace_id_idem:
  "trace_re fresh \<Longrightarrow>
   normalize_trace_id fresh' (Some (normalize_trace_id fresh v)) = normalize_trace_id fresh v"
  by (simp add: normalize_trace_id_valid normalize_trace_id_accepts)

lemma length_hex_pad [simp]: "length (hex_pad n x) = n"
  by (induction n arbitrary: x) auto

lemma hex_digit_trace_char: "trace_char (hex_digit d)"
proof -
  have "list_all (\<lambda>n. trace_char (''0123456789abcdef'' ! n)) [0..<16]" by code_simp
  then have "\<forall>n < 16. trace_char (''0123456789abcdef'' ! n)" by (simp add: list_all_iff)
  then show ?thesis by (simp add: hex_digit_def)
qed

lemma hex_pad_trace_chars: "list_all trace_char (hex_pad n x)"
  by (induction n arbitrary: x) (auto simp: hex_digit_trace_char)

lemma hex_pad_trace_re: "1 \<le> n \<Longrightarrow> n \<le> 128 \<Longrightarrow> trace_re (hex_pad n x)"
  by (simp add: trace_re_def hex_pad_trace_chars)

section \<open>The error contract\<close>

definition error_body :: "string \<Rightarrow> json \<Rightarrow> json \<Rightarrow> bool \<Rightarrow> json \<Rightarrow> json" where
  "error_body tid code message retryable details =
     JObj [(''error'', JObj ([(''code'', code), (''message'', message), (''traceId'', JStr tid),
        (''retryable'', JBool retryable)]
        @ (if details \<noteq> JNull then [(''details'', details)] else [])))]"

fun join_dots :: "string list \<Rightarrow> string" where
  "join_dots [] = []"
| "join_dots [p] = p"
| "join_dots (p # ps) = p @ ''.'' @ join_dots ps"

definition json_response :: "int \<Rightarrow> json \<Rightarrow> http_resp" where
  "json_response s b = \<lparr>status_code = s, headers = [(''content-type'', ''application/json'')], body = b\<rparr>"

definition validation_error :: "string \<Rightarrow> (string list \<times> string) list \<Rightarrow> http_resp" where
  "validation_error tid errs = json_response 422
     (error_body tid (JStr ''VALIDATION_ERROR'') (JStr ''Request validation failed'') False
       (JArr (map (\<lambda>(loc, msg). JObj [(''field'', JStr (join_dots (filter (\<lambda>p. p \<noteq> ''body'') loc))),
                                      (''reason'', JStr msg)]) errs)))"

definition http_error :: "platform \<Rightarrow> string \<Rightarrow> int \<Rightarrow> json \<Rightarrow> http_resp" where
  "http_error P tid st detail = (case detail of
     JObj d \<Rightarrow> json_response st
       (error_body tid (dict_get d ''code'' (JStr ''HTTP_ERROR''))
          (dict_get d ''message'' (JStr ''Request failed''))
          (truthy (dict_get d ''retryable'' (JBool False)))
          (dict_get d ''details'' JNull))
   | JStr s \<Rightarrow> json_response st (error_body tid (JStr ''HTTP_ERROR'') (JStr s) False JNull)
   | _ \<Rightarrow> json_response st (error_body tid (JStr ''HTTP_ERROR'') (JStr (py_str P detail)) False JNull))"

definition database_error :: "string \<Rightarrow> http_resp" where
  "database_error tid = json_response 503
     (error_body tid (JStr ''DATABASE_UNAVAILABLE'') (JStr ''Database operation failed'') True JNull)"

definition generic_error :: "string \<Rightarrow> http_resp" where
  "generic_error tid = json_response 500
     (error_body tid (JStr ''INTERNAL_ERROR'') (JStr ''Unexpected internal error'') False JNull)"

text \<open>\<open>install_exception_handlers\<close>: the handler that answers for each exception.\<close>

fun handle_exception :: "platform \<Rightarrow> string \<Rightarrow> exn \<Rightarrow> http_resp" where
  "handle_exception P tid (RequestValidationError errs) = validation_error tid errs"
| "handle_exception P tid (HTTPException st detail) = http_error P tid st detail"
| "handle_exception P tid SQLAlchemyError = database_error tid"
| "handle_exception P tid (OtherException m) = generic_error tid"

text \<open>The fields of an error answer, as a client reads them.\<close>

definition error_fields :: "json \<Rightarrow> (string \<times> json) list option" where
  "error_fields b = (case b of JObj o1 \<Rightarrow> (case map_of o1 ''error'' of Some (JObj f) \<Rightarrow> Some f | _ \<Rightarrow> None)
     | _ \<Rightarrow> None)"

lemma error_fields_body:
  "error_fields (error_body tid c m r d) = Some ([(''code'', c), (''message'', m), (''traceId'', JStr tid),
     (''retryable'', JBool r)] @ (if d \<noteq> JNull then [(''details'', d)] else []))"
  by (simp add: error_fields_def error_body_def)

lemma handle_exception_body:
  "\<exists>c m r d. body (handle_exception P tid e) = error_body tid c m r d"
  by (cases e) (auto simp: validation_error_def http_error_def database_error_def generic_error_def
     json_response_def split: json.splits)

lemma handle_exception_content_type:
  "header ''content-type'' (handle_exception P tid e) = Some ''application/json''"
  by (cases e) (auto simp: validation_error_def http_error_def database_error_def generic_error_def
     json_response_def header_def split: json.splits)

section \<open>Properties\<close>

text \<open>
  Every exception, whatever it is, is answered with the error contract: a JSON object
  \<open>error\<close> whose \<open>code\<close>, \<open>message\<close> and \<open>retryable\<close> are present and whose \<open>traceId\<close> is the trace
  id that is current when the handler runs.
\<close>

theorem error_contract:
  "\<exists>f r. error_fields (body (handle_exception P tid e)) = Some f \<and>
     map_of f ''code'' \<noteq> None \<and> map_of f ''message'' \<noteq> None \<and>
     map_of f ''retryable'' = Some (JBool r) \<and> map_of f ''traceId'' = Some (JStr tid)"
proof -
  obtain c m r d where "body (handle_exception P tid e) = error_body tid c m r d"
    using handle_exception_body by blast
  then show ?thesis by (simp add: error_fields_body)
qed

text \<open>
  A relayed error keeps its content: when a service answers with the error contract and the
  caller raises an \<open>HTTPException\<close> with that error object as its detail, the final answer has the
  same code, message, retryable flag and details, and the caller's own trace id.
\<close>

theorem error_relay_roundtrip:
  assumes "error_fields (error_body tid c m r d) = Some f"
  shows "body (handle_exception P tid' (HTTPException st (JObj f))) = error_body tid' c m r d"
  using assms by (auto simp: error_fields_body http_error_def json_response_def dict_get_def)

theorem error_relay_roundtrip_witness:
  "body (handle_exception exact_platform ''t2'' (HTTPException 409 (JObj
     [(''code'', JStr ''EVENT_ID_CONFLICT''), (''message'', JStr ''m''), (''traceId'', JStr ''t1''),
      (''retryable'', JBool False)])))
   = error_body ''t2'' (JStr ''EVENT_ID_CONFLICT'') (JStr ''m'') False JNull"
proof -
  have "error_fields (error_body ''t1'' (JStr ''EVENT_ID_CONFLICT'') (JStr ''m'') False JNull)
    = Some [(''code'', JStr ''EVENT_ID_CONFLICT''), (''message'', JStr ''m''), (''traceId'', JStr ''t1''),
      (''retryable'', JBool False)]"
    by (simp add: error_fields_body)
  then show ?thesis by (rule error_relay_roundtrip)
qed

text \<open>
  Trace propagation: inside the middleware the handler sees the normalised trace id, the
  response carries the same id in \<open>X-Trace-ID\<close>, a syntactically valid client id is kept as it is,
  the id is always a valid one, and the context variable is back to its old value afterwards,
  also when the handler raises.
\<close>

theorem tracing_middleware_spec:
  assumes "trace_re fresh" and "c = normalize_trace_id fresh x"
    and "call_next (enter_trace c ts) = (res, ts')"
  shows "trace_re c \<and> (\<forall>v. x = Some v \<longrightarrow> trace_re v \<longrightarrow> c = v)
    \<and> current_trace_id (enter_trace c ts) = c
    \<and> ctx_var (snd (tracing_middleware fresh x call_next ts)) = ctx_var ts
    \<and> (case res of
         Inl e \<Rightarrow> fst (tracing_middleware fresh x call_next ts) = Inl e
       | Inr r \<Rightarrow> (\<exists>r'. fst (tracing_middleware fresh x call_next ts) = Inr r'
           \<and> status_code r' = status_code r \<and> body r' = body r \<and> header ''X-Trace-ID'' r' = Some c))"
  using assms
  by (auto simp: tracing_middleware_run normalize_trace_id_valid normalize_trace_id_accepts
      split: sum.splits)

theorem tracing_middleware_spec_witness:
  "\<exists>r'. fst (tracing_middleware (hex_pad 32 7) (Some ''trace-123'')
       (\<lambda>s. (Inr (json_response 200 JNull), s\<lparr>ctx_var := ''other''\<rparr>))
       \<lparr>ctx_var = ''-'', span_recording = True, span_trace = None, span_attrs = []\<rparr>) = Inr r'
     \<and> status_code r' = 200 \<and> header ''X-Trace-ID'' r' = Some ''trace-123''"
proof -
  have fresh: "trace_re (hex_pad 32 7)" by (rule hex_pad_trace_re) auto
  have "trace_re ''trace-123''" by code_simp
  then have c: "''trace-123'' = normalize_trace_id (hex_pad 32 7) (Some ''trace-123'')"
    by (simp add: normalize_trace_id_accepts)
  show ?thesis
    using tracing_middleware_spec [OF fresh c, of "\<lambda>s. (Inr (json_response 200 JNull), s\<lparr>ctx_var := ''other''\<rparr>)"
        "\<lparr>ctx_var = ''-'', span_recording = True, span_trace = None, span_attrs = []\<rparr>"
        "Inr (json_response 200 JNull)"]
    by (auto simp: json_response_def)
qed

end
