(* ===== verification/Schemas.thy ===== *)
theory Schemas
  imports Web
begin

text \<open>
  The request models of the two services: \<open>EventCreate\<close> of the gateway
  (\<open>event-gateway/app/schemas/events.py\<close>) and \<open>TransactionCreate\<close> of the account service
  (\<open>account-service/app/schemas/accounts.py\<close>), with the declared field constraints and the two
  field validators. A raw request holds the values after JSON decoding and type coercion, which
  are the validation library's; the lists of rejections are in field order, as the library
  collects them.
\<close>

section \<open>Field checks\<close>

datatype txn_type = CREDIT | DEBIT

fun type_value :: "txn_type \<Rightarrow> string" where
  "type_value CREDIT = ''CREDIT''"
| "type_value DEBIT = ''DEBIT''"

definition check_type :: "string \<Rightarrow> violation + txn_type" where
  "check_type s = (if s = ''CREDIT'' then Inr CREDIT else if s = ''DEBIT'' then Inr DEBIT
     else Inl NotAMember)"

text \<open>\<open>Field(min_length=lo, max_length=hi)\<close>.\<close>

definition check_length :: "nat \<Rightarrow> nat \<Rightarrow> string \<Rightarrow> violation + string" where
  "check_length lo hi s = (if length s < lo then Inl (TooShort lo)
     else if hi < length s then Inl (TooLong hi) else Inr s)"

text \<open>
  \<open>Field(gt=0, max_digits=19, decimal_places=4)\<close>: a positive multiple of \<open>0.0001\<close> with at most
  19 digits, so at most 15 before the point.
\<close>

definition check_amount :: "decimal \<Rightarrow> violation + money" where
  "check_amount d = (case dec_units d of None \<Rightarrow> Inl TooManyDigits
     | Some u \<Rightarrow> if u \<le> 0 then Inl (NotGreaterThan 0)
         else if 10 ^ 19 \<le> u then Inl TooManyDigits else Inr u)"

definition currency_upper :: "platform \<Rightarrow> string \<Rightarrow> violation + string" where
  "currency_upper P v = (let v' = str_upper P v in
     if \<not> str_isalpha P v' then Inl (ValueError ''currency must contain three letters'') else Inr v')"

definition check_currency :: "platform \<Rightarrow> string \<Rightarrow> violation + string" where
  "check_currency P v = (case check_length 3 3 v of Inl e \<Rightarrow> Inl e | Inr v \<Rightarrow> currency_upper P v)"

definition timezone_required :: "datetime \<Rightarrow> violation + datetime" where
  "timezone_required v = (if offset v = None then Inl (ValueError ''eventTimestamp must include timezone'')
     else Inr v)"

definition reject :: "string \<Rightarrow> (violation + 'a) \<Rightarrow> (string list \<times> violation) list" where
  "reject field c = (case c of Inl v \<Rightarrow> [([''body'', field], v)] | Inr _ \<Rightarrow> [])"

section \<open>TransactionCreate\<close>

record raw_transaction =
  rt_event_id :: string
  rt_account_id :: string
  rt_type :: string
  rt_amount :: decimal
  rt_currency :: string
  rt_timestamp :: datetime

record transaction_create =
  tc_event_id :: string
  tc_account_id :: string
  tc_type :: txn_type
  tc_amount :: money
  tc_currency :: string
  tc_timestamp :: datetime

definition transaction_rejections :: "platform \<Rightarrow> raw_transaction \<Rightarrow> (string list \<times> violation) list" where
  "transaction_rejections P r =
     reject ''eventId'' (check_length 1 128 (rt_event_id r)) @
     reject ''accountId'' (check_length 1 128 (rt_account_id r)) @
     reject ''type'' (check_type (rt_type r)) @
     reject ''amount'' (check_amount (rt_amount r)) @
     reject ''currency'' (check_currency P (rt_currency r)) @
     reject ''eventTimestamp'' (timezone_required (rt_timestamp r))"

definition validate_transaction ::
  "platform \<Rightarrow> raw_transaction \<Rightarrow> (string list \<times> violation) list + transaction_create" where
  "validate_transaction P r =
     (case (check_length 1 128 (rt_event_id r), check_length 1 128 (rt_account_id r),
            check_type (rt_type r), check_amount (rt_amount r), check_currency P (rt_currency r),
            timezone_required (rt_timestamp r)) of
        (Inr ev, Inr acc, Inr t, Inr am, Inr cur, Inr ts) \<Rightarrow>
          Inr \<lparr>tc_event_id = ev, tc_account_id = acc, tc_type = t, tc_amount = am,
               tc_currency = cur, tc_timestamp = ts\<rparr>
      | _ \<Rightarrow> Inl (transaction_rejections P r))"

section \<open>EventCreate\<close>

record raw_event =
  re_event_id :: string
  re_account_id :: string
  re_type :: string
  re_amount :: decimal
  re_currency :: string
  re_timestamp :: datetime
  re_metadata :: "(string \<times> json) list option"

record event_create =
  ec_event_id :: string
  ec_account_id :: string
  ec_type :: txn_type
  ec_amount :: money
  ec_currency :: string
  ec_timestamp :: datetime
  ec_metadata :: "(string \<times> json) list option"

definition event_rejections :: "platform \<Rightarrow> raw_event \<Rightarrow> (string list \<times> violation) list" where
  "event_rejections P r =
     reject ''eventId'' (check_length 1 128 (re_event_id r)) @
     reject ''accountId'' (check_length 1 128 (re_account_id r)) @
     reject ''type'' (check_type (re_type r)) @
     reject ''amount'' (check_amount (re_amount r)) @
     reject ''currency'' (check_currency P (re_currency r)) @
     reject ''eventTimestamp'' (timezone_required (re_timestamp r))"

definition validate_event ::
  "platform \<Rightarrow> raw_event \<Rightarrow> (string list \<times> violation) list + event_create" where
  "validate_event P r =
     (case (check_length 1 128 (re_event_id r), check_length 1 128 (re_account_id r),
            check_type (re_type r), check_amount (re_amount r), check_currency P (re_currency r),
            timezone_required (re_timestamp r)) of
        (Inr ev, Inr acc, Inr t, Inr am, Inr cur, Inr ts) \<Rightarrow>
          Inr \<lparr>ec_event_id = ev, ec_account_id = acc, ec_type = t, ec_amount = am,
               ec_currency = cur, ec_timestamp = ts, ec_metadata = re_metadata r\<rparr>
      | _ \<Rightarrow> Inl (event_rejections P r))"

text \<open>The exception FastAPI raises for rejected fields.\<close>

definition request_error :: "platform \<Rightarrow> (string list \<times> violation) list \<Rightarrow> exn" where
  "request_error P errs = RequestValidationError (map (\<lambda>(loc, v). (loc, violation_msg P v)) errs)"

section \<open>The payload sent downstream\<close>

text \<open>
  The dictionary \<open>EventService.submit\<close> builds. The amount travels as \<open>str(amount)\<close> and the
  timestamp as \<open>isoformat()\<close>; both texts are read back as the same number and the same wall
  clock with offset, so the model carries the values.
\<close>

record payload =
  pl_event_id :: string
  pl_account_id :: string
  pl_type :: string
  pl_amount :: money
  pl_currency :: string
  pl_timestamp :: datetime

definition payload_of :: "event_create \<Rightarrow> payload" where
  "payload_of c = \<lparr>pl_event_id = ec_event_id c, pl_account_id = ec_account_id c,
     pl_type = type_value (ec_type c), pl_amount = ec_amount c, pl_currency = ec_currency c,
     pl_timestamp = ec_timestamp c\<rparr>"

definition raw_of_payload :: "payload \<Rightarrow> raw_transaction" where
  "raw_of_payload p = \<lparr>rt_event_id = pl_event_id p, rt_account_id = pl_account_id p,
     rt_type = pl_type p, rt_amount = Decimal (pl_amount p) (- 4), rt_currency = pl_currency p,
     rt_timestamp = pl_timestamp p\<rparr>"

definition transaction_of :: "event_create \<Rightarrow> transaction_create" where
  "transaction_of c = \<lparr>tc_event_id = ec_event_id c, tc_account_id = ec_account_id c,
     tc_type = ec_type c, tc_amount = ec_amount c, tc_currency = ec_currency c,
     tc_timestamp = ec_timestamp c\<rparr>"

section \<open>What a validated request satisfies\<close>

definition event_ok :: "event_create \<Rightarrow> bool" where
  "event_ok c \<longleftrightarrow> 1 \<le> length (ec_event_id c) \<and> length (ec_event_id c) \<le> 128
     \<and> 1 \<le> length (ec_account_id c) \<and> length (ec_account_id c) \<le> 128
     \<and> 0 < ec_amount c \<and> ec_amount c < 10 ^ 19 \<and> offset (ec_timestamp c) \<noteq> None"

definition transaction_ok :: "transaction_create \<Rightarrow> bool" where
  "transaction_ok c \<longleftrightarrow> 1 \<le> length (tc_event_id c) \<and> length (tc_event_id c) \<le> 128
     \<and> 1 \<le> length (tc_account_id c) \<and> length (tc_account_id c) \<le> 128
     \<and> 0 < tc_amount c \<and> tc_amount c < 10 ^ 19 \<and> offset (tc_timestamp c) \<noteq> None"

lemma check_length_Inr [simp]: "check_length lo hi s = Inr t \<longleftrightarrow> t = s \<and> lo \<le> length s \<and> length s \<le> hi"
  by (auto simp: check_length_def)

lemma check_amount_Inr: "check_amount d = Inr u \<longleftrightarrow> dec_units d = Some u \<and> 0 < u \<and> u < 10 ^ 19"
  by (auto simp: check_amount_def split: option.splits)

lemma timezone_required_Inr [simp]: "timezone_required v = Inr w \<longleftrightarrow> w = v \<and> offset v \<noteq> None"
  by (auto simp: timezone_required_def)

lemma check_type_value [simp]: "check_type (type_value t) = Inr t"
  by (cases t) (auto simp: check_type_def)

lemma check_type_Inr: "check_type s = Inr t \<longleftrightarrow> s = type_value t"
  by (cases t) (auto simp: check_type_def)

lemma reject_Nil [simp]: "reject f c = [] \<longleftrightarrow> (\<exists>v. c = Inr v)"
  by (auto simp: reject_def split: sum.splits)

lemma check_currency_Inr:
  "check_currency P v = Inr w \<longleftrightarrow> length v = 3 \<and> w = str_upper P v \<and> str_isalpha P w"
  by (auto simp: check_currency_def currency_upper_def Let_def split: sum.splits)
     (auto simp: check_length_def split: if_splits)

lemmas check_Inr = check_amount_Inr check_type_Inr check_currency_Inr

lemma validate_event_Inr:
  assumes "validate_event P r = Inr c"
  shows "check_type (re_type r) = Inr (ec_type c) \<and> check_amount (re_amount r) = Inr (ec_amount c)
    \<and> check_currency P (re_currency r) = Inr (ec_currency c) \<and> ec_event_id c = re_event_id r
    \<and> ec_account_id c = re_account_id r \<and> ec_timestamp c = re_timestamp r
    \<and> ec_metadata c = re_metadata r \<and> event_rejections P r = []"
  using assms by (auto simp: validate_event_def event_rejections_def split: sum.splits)

lemma validate_event_ok: "validate_event P r = Inr c \<Longrightarrow> event_ok c"
  by (auto simp: validate_event_def event_ok_def check_Inr split: sum.splits)

lemma validate_transaction_ok: "validate_transaction P r = Inr c \<Longrightarrow> transaction_ok c"
  by (auto simp: validate_transaction_def transaction_ok_def check_Inr split: sum.splits)

lemma transaction_ok_of [simp]: "event_ok c \<Longrightarrow> transaction_ok (transaction_of c)"
  by (simp add: event_ok_def transaction_ok_def transaction_of_def)

section \<open>Currency codes\<close>

text \<open>On ASCII strings the Unicode tables of the platform are the ASCII ones.\<close>

definition is_ascii :: "string \<Rightarrow> bool" where
  "is_ascii s \<longleftrightarrow> list_all (\<lambda>c. c < CHR 0x80) s"

definition ascii_agree :: "platform \<Rightarrow> bool" where
  "ascii_agree P \<longleftrightarrow> (\<forall>s. is_ascii s \<longrightarrow> str_upper P s = ascii_upper s \<and> str_isalpha P s = ascii_isalpha s)"

definition upper_letter :: "char \<Rightarrow> bool" where
  "upper_letter c \<longleftrightarrow> CHR ''A'' \<le> c \<and> c \<le> CHR ''Z''"

lemmas char_nat = less_eq_char_def less_char_def

lemma ascii_upper_char_letter: "ascii_letter (ascii_upper_char c) \<Longrightarrow> upper_letter (ascii_upper_char c)"
  by (auto simp: ascii_letter_def ascii_upper_char_def upper_letter_def char_nat split: if_splits)

lemma ascii_upper_char_id: "upper_letter c \<Longrightarrow> ascii_upper_char c = c \<and> ascii_letter c \<and> c < CHR 0x80"
  by (auto simp: ascii_letter_def ascii_upper_char_def upper_letter_def char_nat)

lemma ascii_upper_fixed:
  assumes "list_all upper_letter s" and "s \<noteq> []"
  shows "is_ascii s \<and> ascii_upper s = s \<and> ascii_isalpha s"
  using assms
  by (auto simp: is_ascii_def ascii_upper_def ascii_isalpha_def list_all_iff ascii_upper_char_id
      intro: map_idI)

lemma check_currency_ascii:
  assumes "ascii_agree P" and "is_ascii v" and "check_currency P v = Inr w"
  shows "length w = 3 \<and> list_all upper_letter w"
proof -
  from assms have w: "w = ascii_upper v" and len: "length v = 3" and "str_isalpha P w"
    by (auto simp: check_currency_Inr ascii_agree_def)
  have "is_ascii w"
    using assms(2) unfolding w is_ascii_def ascii_upper_def
    by (auto simp: list_all_iff ascii_upper_char_def char_nat)
  with assms(1) \<open>str_isalpha P w\<close> have "ascii_isalpha w" by (simp add: ascii_agree_def)
  with w len show ?thesis
    by (auto simp: ascii_isalpha_def ascii_upper_def list_all_iff ascii_upper_char_letter)
qed

lemma check_currency_stable:
  assumes "ascii_agree P" and "length w = 3" and "list_all upper_letter w"
  shows "check_currency P w = Inr w"
proof -
  have "is_ascii w \<and> ascii_upper w = w \<and> ascii_isalpha w"
    by (rule ascii_upper_fixed) (use assms in auto)
  with assms show ?thesis by (simp add: check_currency_Inr ascii_agree_def)
qed

lemma ascii_agree_exact [simp]: "ascii_agree exact_platform"
  by (simp add: ascii_agree_def)

section \<open>Round trip of the payload\<close>

lemma dec_units_money [simp]: "dec_units (Decimal u (- 4)) = Some u"
  by simp

lemma validate_payload:
  assumes "event_ok c" and "check_currency P (ec_currency c) = Inr (ec_currency c)"
  shows "validate_transaction P (raw_of_payload (payload_of c)) = Inr (transaction_of c)"
proof -
  have "check_amount (Decimal (ec_amount c) (- 4)) = Inr (ec_amount c)"
    using assms(1) by (simp add: check_amount_Inr event_ok_def)
  with assms show ?thesis
    by (auto simp: validate_transaction_def raw_of_payload_def payload_of_def transaction_of_def
        event_ok_def check_length_def timezone_required_def)
qed

section \<open>Properties\<close>



definition sample_raw :: raw_event where
  "sample_raw = \<lparr>re_event_id = ''evt-1'', re_account_id = ''acct-1'', re_type = ''CREDIT'',
     re_amount = Decimal 2550 (- 2), re_currency = ''usd'', re_timestamp = utc 1000,
     re_metadata = None\<rparr>"

definition sample_event :: event_create where
  "sample_event = \<lparr>ec_event_id = ''evt-1'', ec_account_id = ''acct-1'', ec_type = CREDIT,
     ec_amount = 255000, ec_currency = ''USD'', ec_timestamp = utc 1000, ec_metadata = None\<rparr>"

lemma sample_raw_valid: "validate_event exact_platform sample_raw = Inr sample_event"
  by code_simp


text \<open>A platform whose \<open>str.upper\<close> treats the sharp s as Unicode does.\<close>

definition sharp_s_platform :: platform where
  "sharp_s_platform = exact_platform
     \<lparr>str_upper := (\<lambda>s. concat (map (\<lambda>c. if c = CHR 0xDF then ''SS'' else [ascii_upper_char c]) s))\<rparr>"

text \<open>
  The currency code is checked for its length before it is upper-cased, and upper-casing can
  lengthen it: on a platform whose \<open>str.upper\<close> maps the sharp s (code point \<open>0xDF\<close>) to \<open>SS\<close>, as
  Unicode does, the gateway accepts a three-character code and turns it into one of four letters,
  which the account service's own validation then refuses.
\<close>

theorem currency_can_grow:
  "check_currency sharp_s_platform [CHR ''a'', CHR 0xDF, CHR ''b''] = Inr ''ASSB''
   \<and> check_currency sharp_s_platform ''ASSB'' = Inl (TooLong 3)"
  by code_simp

end
