(* ===== verification/AuditTrail.thy ===== *)
theory AuditTrail
  imports Schemas
begin

text \<open>
  The audit trail of a service: the \<open>audit_records\<close> table (\<open>AuditRecord\<close> in
  \<open>app/db/models.py\<close>), \<open>AuditRepository\<close> (\<open>app/repositories/audit.py\<close>) and the audit route
  (\<open>app/api/routes_audit.py\<close>, \<open>app/schemas/audit.py\<close>). The two services carry the same code.
  Audit ids are drawn from \<open>uuid4\<close>; their collisions are not modelled, so writing an audit
  record never fails.
\<close>

text \<open>The values a details dictionary holds: texts, amounts written by \<open>str\<close>, numbers, times.\<close>

datatype detail = DText string | DMoney money | DInt int | DTime datetime

type_synonym details = "(string \<times> detail) list"

record audit =
  au_id :: string
  au_action :: string
  au_outcome :: string
  au_trace :: string
  au_event :: "string option"
  au_account :: "string option"
  au_details :: "details option"
  au_created :: datetime

text \<open>\<open>AuditRecord(...)\<close> before it is flushed: its id and its time are defaults set on INSERT.\<close>

definition new_audit :: "env \<Rightarrow> string \<Rightarrow> string \<Rightarrow> string \<Rightarrow> string \<Rightarrow> details option \<Rightarrow> audit" where
  "new_audit e action outcome ev acc det =
     \<lparr>au_id = [], au_action = action, au_outcome = outcome, au_trace = trace e,
      au_event = Some ev, au_account = Some acc, au_details = det, au_created = now e\<rparr>"

definition insert_audit :: "platform \<Rightarrow> audit \<Rightarrow> audit list \<Rightarrow> audit list" where
  "insert_audit P a rows =
     rows @ [a\<lparr>au_id := uuid_hex P (length rows), au_created := ts_col P (au_created a)\<rparr>]"

text \<open>\<open>AuditRepository.for_event\<close>: ordered by creation time; equal times keep their table order.\<close>

definition for_event :: "string \<Rightarrow> audit list \<Rightarrow> audit list" where
  "for_event ev rows = sort_key (\<lambda>a. instant (au_created a)) (filter (\<lambda>a. au_event a = Some ev) rows)"

text \<open>The route answers with every field of the records.\<close>

record audit_response =
  ar_audit_id :: string
  ar_action :: string
  ar_outcome :: string
  ar_trace_id :: string
  ar_event_id :: "string option"
  ar_account_id :: "string option"
  ar_details :: "details option"
  ar_created_at :: datetime

definition audit_view :: "audit \<Rightarrow> audit_response" where
  "audit_view a = \<lparr>ar_audit_id = au_id a, ar_action = au_action a, ar_outcome = au_outcome a,
     ar_trace_id = au_trace a, ar_event_id = au_event a, ar_account_id = au_account a,
     ar_details = au_details a, ar_created_at = au_created a\<rparr>"

definition audit_for_event :: "string \<Rightarrow> audit list \<Rightarrow> audit_response list" where
  "audit_for_event ev rows = map audit_view (for_event ev rows)"

text \<open>The number of records of an action for an event.\<close>

definition audit_count :: "string \<Rightarrow> string \<Rightarrow> audit list \<Rightarrow> nat" where
  "audit_count action ev rows = length (filter (\<lambda>a. au_action a = action \<and> au_event a = Some ev) rows)"

lemma new_audit_sel [simp]:
  "au_action (new_audit e ac out ev acc det) = ac" "au_outcome (new_audit e ac out ev acc det) = out"
  "au_event (new_audit e ac out ev acc det) = Some ev"
  "au_account (new_audit e ac out ev acc det) = Some acc"
  "au_trace (new_audit e ac out ev acc det) = trace e"
  "au_details (new_audit e ac out ev acc det) = det"
  by (simp_all add: new_audit_def)

lemma audit_count_Nil [simp]: "audit_count action ev [] = 0"
  by (simp add: audit_count_def)

lemma audit_count_insert [simp]:
  "audit_count action ev (insert_audit P a rows) =
     audit_count action ev rows + (if au_action a = action \<and> au_event a = Some ev then 1 else 0)"
  by (simp add: audit_count_def insert_audit_def)

lemma insert_audit_extends: "\<exists>new. insert_audit P a rows = rows @ new"
  by (simp add: insert_audit_def)

lemma for_event_set: "set (for_event ev rows) = {a \<in> set rows. au_event a = Some ev}"
  by (auto simp: for_event_def)

lemma for_event_sorted: "sorted (map (\<lambda>a. instant (au_created a)) (for_event ev rows))"
  by (simp add: for_event_def)

end
