(* ===== verification/AccountDb.thy ===== *)
theory AccountDb
  imports AuditTrail
begin

text \<open>
  The account service's database: the rows of \<open>account-service/app/db/models.py\<close>, the writes of a
  session and its commit, and \<open>AccountRepository\<close> (\<open>app/repositories/accounts.py\<close>).

  A session collects writes and a commit executes them in order, all or none: the first write that
  violates a primary key aborts it with \<open>IntegrityError\<close> and leaves the database as it was. A
  stored amount or timestamp is what its column returns (\<open>num_col\<close>, \<open>ts_col\<close>).
\<close>

section \<open>Rows\<close>

record account_row =
  ac_id :: string
  ac_currency :: string
  ac_balance :: money
  ac_created :: datetime
  ac_updated :: datetime

record tx_row =
  tx_event_id :: string
  tx_account_id :: string
  tx_type :: txn_type
  tx_amount :: money
  tx_currency :: string
  tx_timestamp :: datetime
  tx_applied_at :: datetime

record acct_db =
  ad_accounts :: "account_row list"
  ad_transactions :: "tx_row list"
  ad_audits :: "audit list"

definition empty_acct_db :: acct_db where
  "empty_acct_db = \<lparr>ad_accounts = [], ad_transactions = [], ad_audits = []\<rparr>"

section \<open>The session\<close>

datatype db_error = IntegrityError | StaleDataError

datatype acct_write =
    InsAccount account_row
  | UpdAccount string money datetime
  | InsTransaction tx_row
  | InsAudit audit

definition stored_account :: "platform \<Rightarrow> account_row \<Rightarrow> account_row" where
  "stored_account P a = a\<lparr>ac_balance := num_col P (ac_balance a),
     ac_created := ts_col P (ac_created a), ac_updated := ts_col P (ac_updated a)\<rparr>"

definition stored_tx :: "platform \<Rightarrow> tx_row \<Rightarrow> tx_row" where
  "stored_tx P t = t\<lparr>tx_amount := num_col P (tx_amount t),
     tx_timestamp := ts_col P (tx_timestamp t), tx_applied_at := ts_col P (tx_applied_at t)\<rparr>"

definition set_balance :: "platform \<Rightarrow> money \<Rightarrow> datetime \<Rightarrow> account_row \<Rightarrow> account_row" where
  "set_balance P b t a = a\<lparr>ac_balance := num_col P b, ac_updated := ts_col P t\<rparr>"

fun acct_exec :: "platform \<Rightarrow> acct_write \<Rightarrow> acct_db \<Rightarrow> db_error + acct_db" where
  "acct_exec P (InsAccount a) db = (case tins ac_id (stored_account P a) (ad_accounts db) of
     None \<Rightarrow> Inl IntegrityError | Some rows \<Rightarrow> Inr (db\<lparr>ad_accounts := rows\<rparr>))"
| "acct_exec P (UpdAccount k b t) db = (case tupd ac_id k (set_balance P b t) (ad_accounts db) of
     None \<Rightarrow> Inl StaleDataError | Some rows \<Rightarrow> Inr (db\<lparr>ad_accounts := rows\<rparr>))"
| "acct_exec P (InsTransaction t) db = (case tins tx_event_id (stored_tx P t) (ad_transactions db) of
     None \<Rightarrow> Inl IntegrityError | Some rows \<Rightarrow> Inr (db\<lparr>ad_transactions := rows\<rparr>))"
| "acct_exec P (InsAudit a) db = Inr (db\<lparr>ad_audits := insert_audit P a (ad_audits db)\<rparr>)"

fun acct_flush :: "platform \<Rightarrow> acct_write list \<Rightarrow> acct_db \<Rightarrow> db_error + acct_db" where
  "acct_flush P [] db = Inr db"
| "acct_flush P (x # xs) db = (case acct_exec P x db of Inl err \<Rightarrow> Inl err | Inr db' \<Rightarrow> acct_flush P xs db')"

text \<open>\<open>commit\<close>: the flushed database, or the error and the database before the transaction.\<close>

definition acct_commit :: "platform \<Rightarrow> acct_write list \<Rightarrow> acct_db \<Rightarrow> db_error option \<times> acct_db" where
  "acct_commit P ws db = (case acct_flush P ws db of Inl err \<Rightarrow> (Some err, db) | Inr db' \<Rightarrow> (None, db'))"

text \<open>\<open>AuditRepository.record\<close> with \<open>commit=True\<close> and nothing else pending.\<close>

definition acct_audit :: "platform \<Rightarrow> env \<Rightarrow> string \<Rightarrow> string \<Rightarrow> string \<Rightarrow> string \<Rightarrow> details option \<Rightarrow> acct_db \<Rightarrow> acct_db"
  where "acct_audit P e action outcome ev acc det db =
     snd (acct_commit P [InsAudit (new_audit e action outcome ev acc det)] db)"

section \<open>The repository\<close>

definition get_account :: "string \<Rightarrow> acct_db \<Rightarrow> account_row option" where
  "get_account k db = tget ac_id k (ad_accounts db)"

definition get_transaction :: "string \<Rightarrow> acct_db \<Rightarrow> tx_row option" where
  "get_transaction k db = tget tx_event_id k (ad_transactions db)"

text \<open>
  \<open>ORDER BY event_timestamp DESC, event_id DESC LIMIT limit\<close>. Event ids are unique, so the
  descending order is the reverse of the ascending one. SQLite reads a negative limit as none.
\<close>

definition recent_transactions :: "string \<Rightarrow> int \<Rightarrow> acct_db \<Rightarrow> tx_row list" where
  "recent_transactions acc limit db =
     (let sorted_rows = rev (sort_key (\<lambda>t. (instant (tx_timestamp t), tx_event_id t))
            (filter (\<lambda>t. tx_account_id t = acc) (ad_transactions db)))
      in if limit < 0 then sorted_rows else take (nat limit) sorted_rows)"

section \<open>Frame and lookup lemmas\<close>

lemma stored_sel [simp]:
  "ac_id (stored_account P a) = ac_id a" "ac_currency (stored_account P a) = ac_currency a"
  "tx_event_id (stored_tx P t) = tx_event_id t" "tx_account_id (stored_tx P t) = tx_account_id t"
  "tx_type (stored_tx P t) = tx_type t" "tx_currency (stored_tx P t) = tx_currency t"
  "ac_id (set_balance P b d a) = ac_id a" "ac_currency (set_balance P b d a) = ac_currency a"
  "ac_balance (set_balance P b d a) = num_col P b"
  "ac_balance (stored_account P a) = num_col P (ac_balance a)"
  "tx_amount (stored_tx P t) = num_col P (tx_amount t)"
  "tx_timestamp (stored_tx P t) = ts_col P (tx_timestamp t)"
  "tx_applied_at (stored_tx P t) = ts_col P (tx_applied_at t)"
  by (simp_all add: stored_account_def stored_tx_def set_balance_def)

lemma acct_audit_eq [session_simps]:
  "acct_audit P e action outcome ev acc det db =
     db\<lparr>ad_audits := insert_audit P (new_audit e action outcome ev acc det) (ad_audits db)\<rparr>"
  by (simp add: acct_audit_def acct_commit_def)

lemma acct_audit_frame [simp, frame_simps]:
  "ad_accounts (acct_audit P e ac out ev acc det db) = ad_accounts db"
  "ad_transactions (acct_audit P e ac out ev acc det db) = ad_transactions db"
  "get_account k (acct_audit P e ac out ev acc det db) = get_account k db"
  "get_transaction k (acct_audit P e ac out ev acc det db) = get_transaction k db"
  by (simp_all add: acct_audit_eq get_account_def get_transaction_def)

interpretation accounts: keyed_table ac_id "\<lambda>k rows. tget ac_id k rows" "tins ac_id" "uniq ac_id"
  by unfold_locales (auto simp: tget_tins tins_None intro: uniq_tins)

interpretation transactions: keyed_table tx_event_id "\<lambda>k rows. tget tx_event_id k rows"
    "tins tx_event_id" "uniq tx_event_id"
  by unfold_locales (auto simp: tget_tins tins_None intro: uniq_tins)

lemma recent_transactions_set:
  "set (recent_transactions acc limit db) \<subseteq> {t \<in> set (ad_transactions db). tx_account_id t = acc}"
  by (auto simp: recent_transactions_def Let_def dest: in_set_takeD split: if_splits)

end
