(* ===== verification/AccountService.thy ===== *)
theory AccountService
  imports AccountDb
begin

text \<open>
  \<open>AccountService.apply\<close> (\<open>account-service/app/services/account_service.py\<close>) and the account
  routes (\<open>account-service/app/api/routes_accounts.py\<close>).

  The routes are synchronous functions that the server runs on a thread pool, so requests
  interleave. The argument \<open>w\<close> of \<open>apply_tx\<close> is what other sessions commit between this request's
  reads and its own commit; \<open>w = id\<close> is a request that runs alone. The reads of a request see one
  state of the database, and all clock readings of a request are its \<open>now\<close>.
\<close>

section \<open>Applying a transaction\<close>

definition same_transaction :: "tx_row \<Rightarrow> transaction_create \<Rightarrow> bool" where
  "same_transaction tx c \<longleftrightarrow> tx_account_id tx = tc_account_id c \<and> tx_type tx = tc_type c
     \<and> tx_amount tx = tc_amount c \<and> tx_currency tx = tc_currency c
     \<and> utc_naive (tx_timestamp tx) = utc_naive (tc_timestamp c)"

record tx_result =
  tr_event_id :: string
  tr_account_id :: string
  tr_applied :: bool
  tr_replay :: bool
  tr_balance :: money
  tr_currency :: string
  tr_applied_at :: datetime

text \<open>\<open>_result\<close>: reading \<open>account.balance\<close> of a missing account raises \<open>AttributeError\<close>.\<close>

definition result_of :: "tx_row \<Rightarrow> account_row option \<Rightarrow> bool \<Rightarrow> exn + tx_result" where
  "result_of tx account replay = (case account of None \<Rightarrow> Inl (OtherException ''AttributeError'')
     | Some a \<Rightarrow> Inr \<lparr>tr_event_id = tx_event_id tx, tr_account_id = tx_account_id tx,
         tr_applied = True, tr_replay = replay, tr_balance = ac_balance a,
         tr_currency = ac_currency a, tr_applied_at = tx_applied_at tx\<rparr>)"

definition http_exception :: "int \<Rightarrow> string \<Rightarrow> string \<Rightarrow> exn" where
  "http_exception st code message =
     HTTPException st (JObj [(''code'', JStr code), (''message'', JStr message)])"

definition account_mismatch :: exn where
  "account_mismatch = http_exception 422 ''ACCOUNT_ID_MISMATCH'' ''URL accountId must match payload accountId''"

definition currency_mismatch :: exn where
  "currency_mismatch = http_exception 409 ''CURRENCY_MISMATCH'' ''event currency does not match account currency''"

definition conflict :: "string \<Rightarrow> exn" where
  "conflict message = http_exception 409 ''EVENT_ID_CONFLICT'' message"

text \<open>The outcome of \<open>apply\<close>: the exception, or the result with \<open>True\<close> for a new transaction.\<close>

type_synonym apply_outcome = "(exn + (tx_result \<times> bool)) \<times> acct_db"

definition tx_replay :: "platform \<Rightarrow> env \<Rightarrow> string \<Rightarrow> transaction_create \<Rightarrow> tx_row \<Rightarrow> acct_db \<Rightarrow> apply_outcome" where
  "tx_replay P e account_id c existing db =
     (let db' = acct_audit P e ''TRANSACTION_REPLAYED'' ''REPLAY'' (tc_event_id c) account_id None db
      in (map_sum id (\<lambda>r. (r, False)) (result_of existing (get_account account_id db) True), db'))"

definition tx_conflict :: "platform \<Rightarrow> env \<Rightarrow> string \<Rightarrow> transaction_create \<Rightarrow> string \<Rightarrow> acct_db \<Rightarrow> apply_outcome" where
  "tx_conflict P e account_id c message db =
     (Inl (conflict message),
      acct_audit P e ''TRANSACTION_CONFLICT_REJECTED'' ''FAILURE'' (tc_event_id c) account_id None db)"

definition delta_of :: "txn_type \<Rightarrow> money \<Rightarrow> money" where
  "delta_of t amount = (if t = CREDIT then amount else - amount)"

text \<open>
  The writes of a new transaction: the account row (inserted on its first transaction, updated
  with an absolute balance otherwise), the transaction row and the audit records, one commit.
\<close>

definition new_account :: "env \<Rightarrow> string \<Rightarrow> transaction_create \<Rightarrow> money \<Rightarrow> account_row" where
  "new_account e account_id c b = \<lparr>ac_id = account_id, ac_currency = tc_currency c, ac_balance = b,
     ac_created = now e, ac_updated = now e\<rparr>"

definition new_tx :: "env \<Rightarrow> string \<Rightarrow> transaction_create \<Rightarrow> tx_row" where
  "new_tx e account_id c = \<lparr>tx_event_id = tc_event_id c, tx_account_id = account_id,
     tx_type = tc_type c, tx_amount = tc_amount c, tx_currency = tc_currency c,
     tx_timestamp = tc_timestamp c, tx_applied_at = now e\<rparr>"

definition tx_writes :: "env \<Rightarrow> string \<Rightarrow> transaction_create \<Rightarrow> account_row option \<Rightarrow> acct_write list" where
  "tx_writes e account_id c account =
     (let previous_balance = (case account of None \<Rightarrow> 0 | Some a \<Rightarrow> ac_balance a);
          delta = delta_of (tc_type c) (tc_amount c);
          balance = previous_balance + delta;
          au = (\<lambda>action det. InsAudit (new_audit e action ''SUCCESS'' (tc_event_id c) account_id det))
      in (case account of None \<Rightarrow> [InsAccount (new_account e account_id c balance)]
          | Some a \<Rightarrow> [UpdAccount account_id balance (now e)])
         @ [InsTransaction (new_tx e account_id c)]
         @ (if account = None then [au ''ACCOUNT_CREATED'' None] else [])
         @ [au ''BALANCE_UPDATED'' (Some [(''previousBalance'', DMoney previous_balance),
              (''delta'', DMoney delta), (''newBalance'', DMoney balance)]),
            au ''TRANSACTION_APPLIED'' None])"

text \<open>The commit, the reload of the two rows, and the \<open>except IntegrityError\<close> branch.\<close>

definition commit_tx ::
  "platform \<Rightarrow> env \<Rightarrow> string \<Rightarrow> transaction_create \<Rightarrow> account_row option \<Rightarrow> acct_db \<Rightarrow> apply_outcome" where
  "commit_tx P e account_id c account db =
     (case acct_commit P (tx_writes e account_id c account) db of
        (None, db') \<Rightarrow>
          ((case get_transaction (tc_event_id c) db' of
              None \<Rightarrow> Inl SQLAlchemyError
            | Some tx \<Rightarrow> map_sum id (\<lambda>r. (r, True)) (result_of tx (get_account account_id db') False)), db')
      | (Some IntegrityError, db') \<Rightarrow>
          (case get_transaction (tc_event_id c) db' of
             Some existing \<Rightarrow>
               if same_transaction existing c then tx_replay P e account_id c existing db'
               else tx_conflict P e account_id c ''eventId already exists'' db'
           | None \<Rightarrow> tx_conflict P e account_id c ''eventId already exists'' db')
      | (Some StaleDataError, db') \<Rightarrow> (Inl SQLAlchemyError, db'))"

definition apply_tx ::
  "platform \<Rightarrow> env \<Rightarrow> (acct_db \<Rightarrow> acct_db) \<Rightarrow> string \<Rightarrow> transaction_create \<Rightarrow> acct_db \<Rightarrow> apply_outcome" where
  "apply_tx P e w account_id c db =
     (if account_id \<noteq> tc_account_id c then
        (Inl account_mismatch,
         acct_audit P e ''TRANSACTION_REJECTED'' ''FAILURE'' (tc_event_id c) account_id
           (Some [(''reason'', DText ''account id mismatch'')]) db)
      else (case get_transaction (tc_event_id c) db of
        Some existing \<Rightarrow>
          if \<not> same_transaction existing c
          then tx_conflict P e account_id c ''eventId already exists with different transaction data'' db
          else tx_replay P e account_id c existing db
      | None \<Rightarrow> (case get_account account_id db of
          None \<Rightarrow> commit_tx P e account_id c None (w db)
        | Some a \<Rightarrow>
            if ac_currency a \<noteq> tc_currency c then
              (Inl currency_mismatch,
               acct_audit P e ''TRANSACTION_REJECTED'' ''FAILURE'' (tc_event_id c) account_id
                 (Some [(''reason'', DText ''currency mismatch'')]) db)
            else commit_tx P e account_id c (Some a) (w db))))"

section \<open>The routes\<close>

record 'a reply =
  rp_status :: int
  rp_headers :: "(string \<times> string) list"
  rp_body :: 'a

definition apply_transaction ::
  "platform \<Rightarrow> env \<Rightarrow> (acct_db \<Rightarrow> acct_db) \<Rightarrow> string \<Rightarrow> transaction_create \<Rightarrow> acct_db
    \<Rightarrow> (exn + tx_result reply) \<times> acct_db" where
  "apply_transaction P e w account_id c db = (case apply_tx P e w account_id c db of
     (Inl err, db') \<Rightarrow> (Inl err, db')
   | (Inr (r, created), db') \<Rightarrow>
       (Inr \<lparr>rp_status = (if created then 201 else 200),
             rp_headers = (if \<not> created then [(''Idempotent-Replay'', ''true'')] else []), rp_body = r\<rparr>, db'))"

record balance_response =
  br_account_id :: string
  br_currency :: string
  br_balance :: money
  br_updated_at :: datetime

record transaction_view =
  tv_event_id :: string
  tv_type :: string
  tv_amount :: money
  tv_currency :: string
  tv_timestamp :: datetime
  tv_applied_at :: datetime

record account_response =
  as_balance :: balance_response
  as_recent :: "transaction_view list"

definition account_not_found :: exn where
  "account_not_found = http_exception 404 ''ACCOUNT_NOT_FOUND'' ''account not found''"

definition balance_view :: "account_row \<Rightarrow> balance_response" where
  "balance_view a = \<lparr>br_account_id = ac_id a, br_currency = ac_currency a, br_balance = ac_balance a,
     br_updated_at = ac_updated a\<rparr>"

definition get_balance :: "string \<Rightarrow> acct_db \<Rightarrow> exn + balance_response" where
  "get_balance account_id db = (case get_account account_id db of None \<Rightarrow> Inl account_not_found
     | Some a \<Rightarrow> Inr (balance_view a))"

definition tx_view :: "tx_row \<Rightarrow> transaction_view" where
  "tx_view t = \<lparr>tv_event_id = tx_event_id t, tv_type = type_value (tx_type t), tv_amount = tx_amount t,
     tv_currency = tx_currency t, tv_timestamp = tx_timestamp t, tv_applied_at = tx_applied_at t\<rparr>"

definition get_account_details :: "int \<Rightarrow> string \<Rightarrow> acct_db \<Rightarrow> exn + account_response" where
  "get_account_details limit account_id db = (case get_account account_id db of
     None \<Rightarrow> Inl account_not_found
   | Some a \<Rightarrow> Inr \<lparr>as_balance = balance_view a,
       as_recent = map tx_view (recent_transactions account_id limit db)\<rparr>)"

section \<open>The commit of a transaction, evaluated\<close>

definition new_balance :: "account_row option \<Rightarrow> transaction_create \<Rightarrow> money" where
  "new_balance account c = (case account of None \<Rightarrow> 0 | Some a \<Rightarrow> ac_balance a)
     + delta_of (tc_type c) (tc_amount c)"

text \<open>The audit records a commit appends, and the database it leaves.\<close>

definition applied_audits ::
  "platform \<Rightarrow> env \<Rightarrow> string \<Rightarrow> transaction_create \<Rightarrow> account_row option \<Rightarrow> audit list \<Rightarrow> audit list" where
  "applied_audits P e account_id c account rows =
     (let au = (\<lambda>action det. insert_audit P (new_audit e action ''SUCCESS'' (tc_event_id c) account_id det));
          rows1 = (if account = None then au ''ACCOUNT_CREATED'' None rows else rows)
      in au ''TRANSACTION_APPLIED'' None (au ''BALANCE_UPDATED''
           (Some [(''previousBalance'', DMoney (case account of None \<Rightarrow> 0 | Some a \<Rightarrow> ac_balance a)),
              (''delta'', DMoney (delta_of (tc_type c) (tc_amount c))),
              (''newBalance'', DMoney (new_balance account c))]) rows1))"

definition committed ::
  "platform \<Rightarrow> env \<Rightarrow> string \<Rightarrow> transaction_create \<Rightarrow> account_row option \<Rightarrow> acct_db \<Rightarrow> acct_db" where
  "committed P e account_id c account db =
     \<lparr>ad_accounts = (case account of
          None \<Rightarrow> ad_accounts db @ [stored_account P (new_account e account_id c (new_balance account c))]
        | Some _ \<Rightarrow> map (\<lambda>r. if ac_id r = account_id then set_balance P (new_balance account c) (now e) r else r)
            (ad_accounts db)),
      ad_transactions = ad_transactions db @ [stored_tx P (new_tx e account_id c)],
      ad_audits = applied_audits P e account_id c account (ad_audits db)\<rparr>"

lemma new_row_sel [simp]:
  "ac_id (new_account e k c b) = k" "ac_currency (new_account e k c b) = tc_currency c"
  "ac_balance (new_account e k c b) = b"
  "tx_event_id (new_tx e k c) = tc_event_id c" "tx_account_id (new_tx e k c) = k"
  "tx_type (new_tx e k c) = tc_type c" "tx_amount (new_tx e k c) = tc_amount c"
  "tx_currency (new_tx e k c) = tc_currency c" "tx_timestamp (new_tx e k c) = tc_timestamp c"
  by (simp_all add: new_account_def new_tx_def)

lemma commit_writes [session_simps]:
  "acct_commit P (tx_writes e k c account) db =
     (if account = None \<and> get_account k db \<noteq> None then (Some IntegrityError, db)
      else if account \<noteq> None \<and> get_account k db = None then (Some StaleDataError, db)
      else if get_transaction (tc_event_id c) db \<noteq> None then (Some IntegrityError, db)
      else (None, committed P e k c account db))"
  by (auto simp: acct_commit_def tx_writes_def Let_def committed_def applied_audits_def new_balance_def
      get_account_def get_transaction_def tins_def tupd_def split: option.splits)

lemma get_transaction_committed [simp]:
  "get_transaction k (committed P e acc c account db) =
     (case get_transaction k db of Some t \<Rightarrow> Some t
      | None \<Rightarrow> if k = tc_event_id c then Some (stored_tx P (new_tx e acc c)) else None)"
  by (auto simp: committed_def get_transaction_def tget_append tget_Cons split: option.splits)

lemma get_account_committed:
  "get_account k (committed P e acc c account db) = (case account of
     None \<Rightarrow> (case get_account k db of Some a \<Rightarrow> Some a
       | None \<Rightarrow> if k = acc then Some (stored_account P (new_account e acc c (new_balance account c))) else None)
   | Some _ \<Rightarrow> if k = acc then map_option (set_balance P (new_balance account c) (now e)) (get_account k db)
       else get_account k db)"
  by (auto simp: committed_def get_account_def tget_append tget_Cons tget_map_upd split: option.splits)

section \<open>The abstract ledger\<close>

text \<open>
  What the service promises: a ledger of immutable entries under their event ids. An entry is
  added when its id is new and its currency is the account's; the balance of an account is the
  sum of its credits minus the sum of its debits.
\<close>

record entry =
  en_account :: string
  en_type :: txn_type
  en_amount :: money
  en_currency :: string
  en_instant :: int

type_synonym ledger = "(string \<times> entry) list"

datatype verdict = Applied | Replayed | Conflict | BadCurrency | Mismatch | Failed

definition entry_of :: "transaction_create \<Rightarrow> entry" where
  "entry_of c = \<lparr>en_account = tc_account_id c, en_type = tc_type c, en_amount = tc_amount c,
     en_currency = tc_currency c, en_instant = instant (tc_timestamp c)\<rparr>"

definition ledger_apply :: "string \<Rightarrow> transaction_create \<Rightarrow> ledger \<Rightarrow> verdict \<times> ledger" where
  "ledger_apply acc c L =
     (if acc \<noteq> tc_account_id c then (Mismatch, L)
      else case map_of L (tc_event_id c) of
        Some en \<Rightarrow> (if en = entry_of c then Replayed else Conflict, L)
      | None \<Rightarrow> if list_ex (\<lambda>(_, en). en_account en = acc \<and> en_currency en \<noteq> tc_currency c) L
          then (BadCurrency, L) else (Applied, L @ [(tc_event_id c, entry_of c)]))"

text \<open>A credit counts for an account, a debit against it.\<close>

fun signed :: "txn_type \<Rightarrow> money \<Rightarrow> money" where
  "signed CREDIT m = m"
| "signed DEBIT m = - m"

definition ledger_balance :: "string \<Rightarrow> ledger \<Rightarrow> money" where
  "ledger_balance acc L = sum_list (map (\<lambda>(_, en). signed (en_type en) (en_amount en))
     (filter (\<lambda>(_, en). en_account en = acc) L))"

lemma signed_delta: "signed t m = delta_of t m"
  by (cases t) (simp_all add: delta_of_def)

lemma ledger_balance_delta: "ledger_balance acc L = sum_list (map (\<lambda>(_, en). delta_of (en_type en) (en_amount en))
    (filter (\<lambda>(_, en). en_account en = acc) L))"
  by (simp add: ledger_balance_def signed_delta)

definition volume :: "ledger \<Rightarrow> money" where
  "volume L = sum_list (map (\<lambda>(_, en). en_amount en) L)"

text \<open>The abstraction of a database, and the verdict an outcome stands for.\<close>

definition entry_of_tx :: "tx_row \<Rightarrow> entry" where
  "entry_of_tx t = \<lparr>en_account = tx_account_id t, en_type = tx_type t, en_amount = tx_amount t,
     en_currency = tx_currency t, en_instant = instant (tx_timestamp t)\<rparr>"

definition ledger_of :: "acct_db \<Rightarrow> ledger" where
  "ledger_of db = map (\<lambda>t. (tx_event_id t, entry_of_tx t)) (ad_transactions db)"

definition verdict_of :: "exn + (tx_result \<times> bool) \<Rightarrow> verdict" where
  "verdict_of r = (case r of Inr (_, created) \<Rightarrow> if created then Applied else Replayed
     | Inl err \<Rightarrow> if err = account_mismatch then Mismatch else if err = currency_mismatch then BadCurrency
         else if \<exists>m \<in> {''eventId already exists'', ''eventId already exists with different transaction data''}.
                err = conflict m then Conflict else Failed)"

section \<open>The invariant\<close>

definition acct_inv :: "acct_db \<Rightarrow> bool" where
  "acct_inv db \<longleftrightarrow> uniq ac_id (ad_accounts db) \<and> uniq tx_event_id (ad_transactions db)
     \<and> (\<forall>a \<in> set (ad_accounts db). ac_balance a = ledger_balance (ac_id a) (ledger_of db)
          \<and> (\<exists>t \<in> set (ad_transactions db). tx_account_id t = ac_id a))
     \<and> (\<forall>t \<in> set (ad_transactions db). 0 < tx_amount t
          \<and> (\<exists>a \<in> set (ad_accounts db). ac_id a = tx_account_id t \<and> ac_currency a = tx_currency t))"

lemma acct_inv_empty: "acct_inv empty_acct_db"
  by (simp add: acct_inv_def empty_acct_db_def)

lemma ledger_of_audit [simp]: "ledger_of (acct_audit P e ac out ev acc det db) = ledger_of db"
  by (simp add: ledger_of_def)

lemma acct_inv_audit [simp]: "acct_inv (acct_audit P e ac out ev acc det db) = acct_inv db"
  by (simp add: acct_inv_def)

lemma map_of_ledger: "map_of (ledger_of db) k = map_option entry_of_tx (get_transaction k db)"
proof -
  have "map_of (map (\<lambda>t. (tx_event_id t, entry_of_tx t)) rows) k = map_option entry_of_tx (tget tx_event_id k rows)"
    for rows by (induction rows) (auto simp: tget_Cons)
  then show ?thesis by (simp add: ledger_of_def get_transaction_def)
qed

lemma ledger_balance_snoc [simp]:
  "ledger_balance acc (L @ [(k, en)]) =
     ledger_balance acc L + (if en_account en = acc then delta_of (en_type en) (en_amount en) else 0)"
  by (simp add: ledger_balance_delta)

lemma volume_snoc [simp]: "volume (L @ [(k, en)]) = volume L + en_amount en"
  by (simp add: volume_def)

lemma ledger_balance_absent: "(\<And>k en. (k, en) \<in> set L \<Longrightarrow> en_account en \<noteq> acc) \<Longrightarrow> ledger_balance acc L = 0"
  by (induction L) (auto simp: ledger_balance_delta)

lemma abs_delta [simp]: "\<bar>delta_of t m\<bar> = \<bar>m\<bar>"
  by (simp add: delta_of_def)

lemma abs_ledger_balance: "(\<And>k en. (k, en) \<in> set L \<Longrightarrow> 0 \<le> en_amount en) \<Longrightarrow> \<bar>ledger_balance acc L\<bar> \<le> volume L"
  unfolding ledger_balance_delta volume_def by (rule abs_sum_list_le) (auto split: prod.splits)

lemma same_transaction_entry:
  "same_transaction t c \<longleftrightarrow> entry_of_tx t = entry_of c"
  by (auto simp: same_transaction_def entry_of_tx_def entry_of_def utc_naive_eq_iff)

lemma ledger_of_mem: "(k, en) \<in> set (ledger_of db) \<Longrightarrow>
    \<exists>t \<in> set (ad_transactions db). tx_event_id t = k \<and> entry_of_tx t = en"
  by (auto simp: ledger_of_def)

lemma acct_inv_tx:
  assumes "acct_inv db" and "t \<in> set (ad_transactions db)"
  shows "0 < tx_amount t" and "\<exists>a \<in> set (ad_accounts db). ac_id a = tx_account_id t \<and> ac_currency a = tx_currency t"
  using assms by (simp_all add: acct_inv_def)

lemma acct_inv_account:
  assumes "acct_inv db" and "a \<in> set (ad_accounts db)"
  shows "ac_balance a = ledger_balance (ac_id a) (ledger_of db)"
    and "\<exists>t \<in> set (ad_transactions db). tx_account_id t = ac_id a"
  using assms by (simp_all add: acct_inv_def)

lemma acct_inv_uniq:
  assumes "acct_inv db"
  shows "uniq ac_id (ad_accounts db)" and "uniq tx_event_id (ad_transactions db)"
  using assms by (simp_all add: acct_inv_def)

lemma get_account_mem: "get_account k db = Some a \<Longrightarrow> a \<in> set (ad_accounts db) \<and> ac_id a = k"
  unfolding get_account_def by (rule tget_Some)

lemma get_transaction_mem: "get_transaction k db = Some t \<Longrightarrow> t \<in> set (ad_transactions db) \<and> tx_event_id t = k"
  unfolding get_transaction_def by (rule tget_Some)

lemma get_account_row: "acct_inv db \<Longrightarrow> a \<in> set (ad_accounts db) \<Longrightarrow> get_account (ac_id a) db = Some a"
  by (simp add: get_account_def tget_unique acct_inv_uniq)

lemma account_balance:
  "acct_inv db \<Longrightarrow> get_account k db = Some a \<Longrightarrow> ac_balance a = ledger_balance k (ledger_of db)"
  using acct_inv_account(1) get_account_mem by blast

lemma tx_account_row:
  assumes "acct_inv db" and "t \<in> set (ad_transactions db)"
  obtains a where "get_account (tx_account_id t) db = Some a" and "ac_currency a = tx_currency t"
proof -
  obtain a where "a \<in> set (ad_accounts db)" "ac_id a = tx_account_id t" "ac_currency a = tx_currency t"
    using acct_inv_tx(2) [OF assms] by blast
  with get_account_row [OF assms(1)] that show thesis by force
qed

lemma transaction_account:
  assumes "acct_inv db" and "get_transaction ev db = Some t"
  obtains a where "get_account (tx_account_id t) db = Some a" and "ac_currency a = tx_currency t"
  using tx_account_row [OF assms(1)] get_transaction_mem [OF assms(2)] by blast

lemma no_account_no_entry:
  assumes "acct_inv db" and "get_account k db = None" and "(ev, en) \<in> set (ledger_of db)"
  shows "en_account en \<noteq> k"
proof -
  obtain t where t: "t \<in> set (ad_transactions db)" "entry_of_tx t = en"
    using ledger_of_mem [OF assms(3)] by blast
  obtain a where "get_account (tx_account_id t) db = Some a"
    using tx_account_row [OF assms(1) t(1)] by blast
  with assms(2) t(2) show ?thesis by (auto simp: entry_of_tx_def)
qed

lemma no_account_balance: "acct_inv db \<Longrightarrow> get_account k db = None \<Longrightarrow> ledger_balance k (ledger_of db) = 0"
  using no_account_no_entry by (intro ledger_balance_absent) blast

lemma entry_positive: "acct_inv db \<Longrightarrow> (ev, en) \<in> set (ledger_of db) \<Longrightarrow> 0 < en_amount en"
  using ledger_of_mem acct_inv_tx(1) by (fastforce simp: entry_of_tx_def)

lemma volume_nonneg: "acct_inv db \<Longrightarrow> \<bar>ledger_balance k (ledger_of db)\<bar> \<le> volume (ledger_of db)"
  using entry_positive by (intro abs_ledger_balance) fastforce

text \<open>
  The currency test of the code, on the account row, is the ledger's test on the account's entries:
  every account has an entry, and all its entries have its currency.
\<close>

lemma currency_test:
  assumes inv: "acct_inv db" and acc: "get_account k db = Some a"
  shows "list_ex (\<lambda>(_, en). en_account en = k \<and> en_currency en \<noteq> cur) (ledger_of db) \<longleftrightarrow> ac_currency a \<noteq> cur"
proof -
  have same: "tx_currency t = ac_currency a" if "t \<in> set (ad_transactions db)" "tx_account_id t = k" for t
    using acct_inv_tx(2) [OF inv that(1)] get_account_row [OF inv] acc that(2) by fastforce
  obtain t where "t \<in> set (ad_transactions db)" "tx_account_id t = k"
    using acct_inv_account(2) [OF inv] get_account_mem [OF acc] by blast
  with same show ?thesis by (auto simp: list_ex_iff ledger_of_def entry_of_tx_def)
qed

lemma currency_test_none:
  assumes "acct_inv db" and "get_account k db = None"
  shows "\<not> list_ex (\<lambda>(_, en). en_account en = k \<and> en_currency en \<noteq> cur) (ledger_of db)"
  using no_account_no_entry [OF assms] by (auto simp: list_ex_iff)

section \<open>Every commit keeps the invariant\<close>

lemma ledger_of_committed:
  assumes "num_col P (tc_amount c) = tc_amount c" and "ts_exact P (tc_timestamp c)" and "k = tc_account_id c"
  shows "ledger_of (committed P e k c account db) = ledger_of db @ [(tc_event_id c, entry_of c)]"
  using assms by (simp add: ledger_of_def committed_def entry_of_tx_def entry_of_def ts_exact_def)

lemma committed_row:
  assumes "a \<in> set (ad_accounts (committed P e k c account db))" and "get_account k db = account"
  shows "(a \<in> set (ad_accounts db) \<and> ac_id a \<noteq> k)
    \<or> (ac_id a = k \<and> ac_balance a = num_col P (new_balance account c))"
proof (cases account)
  case None
  then have "ad_accounts (committed P e k c account db) =
      ad_accounts db @ [stored_account P (new_account e k c (new_balance account c))]"
    by (simp add: committed_def)
  with assms(1) consider "a \<in> set (ad_accounts db)" | "a = stored_account P (new_account e k c (new_balance account c))"
    by auto
  then show ?thesis
  proof cases
    case 1
    with None assms(2) have "ac_id a \<noteq> k" by (auto simp: get_account_def tget_None)
    with 1 show ?thesis by blast
  qed simp
next
  case (Some b)
  then have "ad_accounts (committed P e k c account db) =
      map (\<lambda>r. if ac_id r = k then set_balance P (new_balance account c) (now e) r else r) (ad_accounts db)"
    by (simp add: committed_def)
  with assms(1) have "a \<in> (\<lambda>r. if ac_id r = k then set_balance P (new_balance account c) (now e) r else r)
      ` set (ad_accounts db)"
    by (simp only: set_map)
  then show ?thesis by (rule imageE) (simp split: if_splits)
qed

lemma committed_keeps_row:
  assumes "a \<in> set (ad_accounts db)"
  shows "\<exists>a' \<in> set (ad_accounts (committed P e k c account db)). ac_id a' = ac_id a \<and> ac_currency a' = ac_currency a"
proof (cases account)
  case None
  with assms show ?thesis by (auto simp: committed_def)
next
  case (Some b)
  let ?f = "\<lambda>r. if ac_id r = k then set_balance P (new_balance account c) (now e) r else r"
  from Some assms have "?f a \<in> set (ad_accounts (committed P e k c account db))"
    by (simp add: committed_def)
  moreover have "ac_id (?f a) = ac_id a \<and> ac_currency (?f a) = ac_currency a" by simp
  ultimately show ?thesis by blast
qed

text \<open>
  The balance a commit writes is right when it is the ledger's balance before plus the delta: the
  row read is the row that is updated.
\<close>

lemma committed_inv:
  assumes inv: "acct_inv db" and k: "k = tc_account_id c" and acc: "get_account k db = account"
    and fresh: "get_transaction (tc_event_id c) db = None"
    and cur: "\<And>a. account = Some a \<Longrightarrow> ac_currency a = tc_currency c"
    and amount: "0 < tc_amount c" "num_col P (tc_amount c) = tc_amount c"
    and bal: "num_col P (new_balance account c) = new_balance account c"
    and ts: "ts_exact P (tc_timestamp c)"
  shows "acct_inv (committed P e k c account db)"
proof -
  let ?db = "committed P e k c account db" and ?t = "stored_tx P (new_tx e k c)"
  have L: "ledger_of ?db = ledger_of db @ [(tc_event_id c, entry_of c)]"
    by (rule ledger_of_committed) (use assms in auto)
  have txs: "ad_transactions ?db = ad_transactions db @ [?t]" by (simp add: committed_def)
  have nb: "new_balance account c = ledger_balance k (ledger_of db) + delta_of (tc_type c) (tc_amount c)"
    using acc account_balance [OF inv] no_account_balance [OF inv]
    by (auto simp: new_balance_def split: option.splits)
  have bal_k: "ledger_balance k (ledger_of ?db) = new_balance account c"
    unfolding L nb by (simp add: k entry_of_def)
  have bal_o: "ledger_balance j (ledger_of ?db) = ledger_balance j (ledger_of db)" if "j \<noteq> k" for j
    using that k unfolding L by (simp add: entry_of_def)
  have utx: "uniq tx_event_id (ad_transactions ?db)"
    using acct_inv_uniq(2) [OF inv] fresh
    by (auto simp: txs uniq_def get_transaction_def tget_None)
  have uac: "uniq ac_id (ad_accounts ?db)"
  proof (cases account)
    case None
    with acct_inv_uniq(1) [OF inv] acc show ?thesis
      by (auto simp: committed_def uniq_def get_account_def tget_None)
  next
    case (Some a)
    have "ad_accounts ?db = map (\<lambda>r. if ac_id r = k then set_balance P (new_balance account c) (now e) r else r)
        (ad_accounts db)"
      by (simp add: committed_def Some)
    then have "map ac_id (ad_accounts ?db) = map ac_id (ad_accounts db)"
      by (simp only:) (rule map_key_upd, simp)
    with acct_inv_uniq(1) [OF inv] show ?thesis by (simp add: uniq_def)
  qed
  have accounts: "ac_balance a = ledger_balance (ac_id a) (ledger_of ?db)
      \<and> (\<exists>t \<in> set (ad_transactions ?db). tx_account_id t = ac_id a)" if "a \<in> set (ad_accounts ?db)" for a
    using committed_row [OF that acc]
  proof (elim disjE conjE)
    assume "ac_id a = k" and "ac_balance a = num_col P (new_balance account c)"
    with bal show ?thesis by (simp add: bal_k txs)
  next
    assume "a \<in> set (ad_accounts db)" and "ac_id a \<noteq> k"
    with acct_inv_account [OF inv] show ?thesis by (simp add: bal_o txs)
  qed
  have keep: "\<exists>a' \<in> set (ad_accounts ?db). ac_id a' = ac_id a \<and> ac_currency a' = ac_currency a"
    if "a \<in> set (ad_accounts db)" for a
    using committed_keeps_row [OF that] .
  have own: "\<exists>a \<in> set (ad_accounts ?db). ac_id a = k \<and> ac_currency a = tc_currency c"
  proof (cases account)
    case None
    then show ?thesis by (auto simp: committed_def)
  next
    case (Some a)
    with acc cur keep get_account_mem show ?thesis by metis
  qed
  have "0 < tx_amount t \<and> (\<exists>a \<in> set (ad_accounts ?db). ac_id a = tx_account_id t \<and> ac_currency a = tx_currency t)"
    if "t \<in> set (ad_transactions ?db)" for t
  proof (cases "t = ?t")
    case True
    with own amount show ?thesis by simp
  next
    case False
    with that have "t \<in> set (ad_transactions db)" by (simp add: txs)
    with acct_inv_tx [OF inv] keep show ?thesis by metis
  qed
  with uac utx accounts show ?thesis unfolding acct_inv_def by blast
qed

text \<open>The commit, on the state the writes meet.\<close>

lemma commit_tx_new:
  assumes "get_account k db = account" and "get_transaction (tc_event_id c) db = None"
    and "get_account k (committed P e k c account db) = Some a"
  shows "commit_tx P e k c account db =
     (Inr (\<lparr>tr_event_id = tc_event_id c, tr_account_id = k, tr_applied = True, tr_replay = False,
         tr_balance = ac_balance a, tr_currency = ac_currency a, tr_applied_at = ts_col P (now e)\<rparr>, True),
      committed P e k c account db)"
  using assms by (auto simp: commit_tx_def commit_writes result_of_def new_tx_def)

lemma get_account_own_committed:
  assumes "get_account k db = account"
  obtains a where "get_account k (committed P e k c account db) = Some a"
    and "ac_balance a = num_col P (new_balance account c)"
    and "ac_currency a = (case account of None \<Rightarrow> tc_currency c | Some b \<Rightarrow> ac_currency b)"
  using assms that by (cases account) (auto simp: get_account_committed)

lemma get_account_other_committed:
  "j \<noteq> k \<Longrightarrow> get_account j (committed P e k c account db) = get_account j db"
  by (auto simp: get_account_committed split: option.splits)

section \<open>Refinement of the abstract ledger\<close>

text \<open>
  One request, whatever other sessions commit meanwhile: if the account row it read is still the
  current one when it commits, its outcome and its effect are those of the abstract ledger.
\<close>

definition bounded_platform :: "platform \<Rightarrow> transaction_create \<Rightarrow> acct_db \<Rightarrow> bool" where
  "bounded_platform P c db \<longleftrightarrow> num_exact P (volume (ledger_of db) + \<bar>tc_amount c\<bar> + 1) \<and> ts_exact P (tc_timestamp c)"

definition refines_ledger ::
  "string \<Rightarrow> transaction_create \<Rightarrow> acct_db \<Rightarrow> apply_outcome \<Rightarrow> bool" where
  "refines_ledger k c db out \<longleftrightarrow>
     ledger_apply k c (ledger_of db) = (verdict_of (fst out), ledger_of (snd out))
     \<and> acct_inv (snd out)
     \<and> (case fst out of Inl _ \<Rightarrow> True
        | Inr (r, _) \<Rightarrow> tr_balance r = ledger_balance k (ledger_of (snd out)) \<and> tr_account_id r = k
            \<and> tr_event_id r = tc_event_id c \<and> tr_currency r = tc_currency c)"

lemma verdict_simps [simp]:
  "verdict_of (Inr (r, b)) = (if b then Applied else Replayed)"
  "verdict_of (Inl account_mismatch) = Mismatch"
  "verdict_of (Inl currency_mismatch) = BadCurrency"
  "verdict_of (Inl (conflict ''eventId already exists'')) = Conflict"
  "verdict_of (Inl (conflict ''eventId already exists with different transaction data'')) = Conflict"
  by (simp_all add: verdict_of_def account_mismatch_def currency_mismatch_def conflict_def http_exception_def)

lemma tx_replay_refines:
  assumes inv: "acct_inv db" and k: "k = tc_account_id c"
    and tx: "get_transaction (tc_event_id c) db = Some t" and same: "same_transaction t c"
  shows "refines_ledger k c db (tx_replay P e k c t db)"
proof -
  obtain a where a: "get_account (tx_account_id t) db = Some a" "ac_currency a = tx_currency t"
    using transaction_account [OF inv tx] by blast
  from same k have "tx_account_id t = k" "tx_currency t = tc_currency c" "tx_event_id t = tc_event_id c"
    using get_transaction_mem [OF tx] by (auto simp: same_transaction_def)
  with a k inv tx same account_balance [OF inv, of k a] show ?thesis
    by (simp add: refines_ledger_def tx_replay_def Let_def result_of_def ledger_apply_def map_of_ledger
        same_transaction_entry)
qed

lemma tx_conflict_refines:
  assumes "acct_inv db" and "k = tc_account_id c"
    and "get_transaction (tc_event_id c) db = Some t" and "\<not> same_transaction t c"
    and "m \<in> {''eventId already exists'', ''eventId already exists with different transaction data''}"
  shows "refines_ledger k c db (tx_conflict P e k c m db)"
  using assms
  by (auto simp: refines_ledger_def tx_conflict_def ledger_apply_def map_of_ledger same_transaction_entry)

lemma commit_tx_refines:
  assumes inv: "acct_inv db" and k: "k = tc_account_id c" and amount: "0 < tc_amount c"
    and acc: "get_account k db = account"
    and cur: "\<And>a. account = Some a \<Longrightarrow> ac_currency a = tc_currency c"
    and P: "bounded_platform P c db"
  shows "refines_ledger k c db (commit_tx P e k c account db)"
proof (cases "get_transaction (tc_event_id c) db")
  case (Some t)
  have "commit_tx P e k c account db = (if same_transaction t c then tx_replay P e k c t db
      else tx_conflict P e k c ''eventId already exists'' db)"
    using Some acc by (cases account) (simp_all add: commit_tx_def commit_writes)
  with inv k Some show ?thesis by (simp add: tx_replay_refines tx_conflict_refines)
next
  case None
  let ?db = "committed P e k c account db"
  have nb: "new_balance account c = ledger_balance k (ledger_of db) + delta_of (tc_type c) (tc_amount c)"
    using acc account_balance [OF inv] no_account_balance [OF inv]
    by (auto simp: new_balance_def split: option.splits)
  have vol: "\<bar>ledger_balance k (ledger_of db)\<bar> \<le> volume (ledger_of db)" by (rule volume_nonneg [OF inv])
  have small: "\<bar>new_balance account c\<bar> < volume (ledger_of db) + \<bar>tc_amount c\<bar> + 1"
    using vol abs_triangle_ineq [of "ledger_balance k (ledger_of db)" "delta_of (tc_type c) (tc_amount c)"]
    unfolding nb by simp
  have num: "num_col P (tc_amount c) = tc_amount c" "num_col P (new_balance account c) = new_balance account c"
  proof -
    from P have exact: "num_exact P (volume (ledger_of db) + \<bar>tc_amount c\<bar> + 1)"
      by (simp add: bounded_platform_def)
    from vol have "\<bar>tc_amount c\<bar> < volume (ledger_of db) + \<bar>tc_amount c\<bar> + 1" by linarith
    with exact show "num_col P (tc_amount c) = tc_amount c" by (rule num_exactD)
    from exact small show "num_col P (new_balance account c) = new_balance account c" by (rule num_exactD)
  qed
  have ts: "ts_exact P (tc_timestamp c)" using P by (simp add: bounded_platform_def)
  have inv': "acct_inv ?db" by (rule committed_inv) (use assms None num ts in auto)
  have L: "ledger_of ?db = ledger_of db @ [(tc_event_id c, entry_of c)]"
    by (rule ledger_of_committed) (use num ts k in auto)
  obtain a where a: "get_account k ?db = Some a"
      "ac_currency a = (case account of None \<Rightarrow> tc_currency c | Some b \<Rightarrow> ac_currency b)"
    using get_account_own_committed [OF acc] by metis
  have nocur: "\<not> list_ex (\<lambda>(_, en). en_account en = k \<and> en_currency en \<noteq> tc_currency c) (ledger_of db)"
    using acc cur currency_test [OF inv] currency_test_none [OF inv] by (cases account) auto
  have "ac_balance a = ledger_balance k (ledger_of ?db)" by (rule account_balance [OF inv' a(1)])
  with commit_tx_new [OF acc None a(1)] L inv' nocur None k a(2) cur show ?thesis
    by (auto simp: refines_ledger_def ledger_apply_def map_of_ledger split: option.splits)
qed

lemma apply_tx_refines:
  assumes inv: "acct_inv db" and amount: "0 < tc_amount c" and P: "bounded_platform P c (w db)"
    and w: "acct_inv (w db)" "get_account k (w db) = get_account k db"
  shows "\<exists>base \<in> {db, w db}. refines_ledger k c base (apply_tx P e w k c db)"
proof (cases "k = tc_account_id c")
  case False
  then have "refines_ledger k c db (apply_tx P e w k c db)"
    using inv by (simp add: refines_ledger_def apply_tx_def ledger_apply_def)
  then show ?thesis by blast
next
  case k: True
  show ?thesis
  proof (cases "get_transaction (tc_event_id c) db")
    case (Some t)
    then have "refines_ledger k c db (apply_tx P e w k c db)"
      using inv k by (simp add: apply_tx_def tx_replay_refines tx_conflict_refines)
    then show ?thesis by blast
  next
    case None
    show ?thesis
    proof (cases "\<exists>a. get_account k db = Some a \<and> ac_currency a \<noteq> tc_currency c")
      case True
      then obtain a where a: "get_account k db = Some a" "ac_currency a \<noteq> tc_currency c" by blast
      then have "refines_ledger k c db (apply_tx P e w k c db)"
        using None k inv currency_test [OF inv a(1)]
        by (simp add: refines_ledger_def apply_tx_def ledger_apply_def map_of_ledger)
      then show ?thesis by blast
    next
      case False
      then have "apply_tx P e w k c db = commit_tx P e k c (get_account k db) (w db)"
        using None k by (auto simp: apply_tx_def split: option.splits)
      moreover have "refines_ledger k c (w db) (commit_tx P e k c (get_account k db) (w db))"
        using False k amount P w by (intro commit_tx_refines) auto
      ultimately show ?thesis by auto
    qed
  qed
qed

end
