(* ===== verification/AccountLedger.thy ===== *)
theory AccountLedger
  imports AccountService "HOL-Library.Multiset"
begin

text \<open>
  What the account service guarantees over sequences of requests, and what it does not guarantee
  when requests overlap: the refinement of the abstract ledger, replays, immutability of
  transactions, the audit trail, runs and the order of arrival, the two races of \<open>commit_tx\<close>, and
  the account view.
\<close>

section \<open>Replays\<close>

lemma apply_tx_cases:
  assumes "k = tc_account_id c" and "get_transaction (tc_event_id c) db = None"
    and "\<And>a. get_account k db = Some a \<Longrightarrow> ac_currency a = tc_currency c"
  shows "apply_tx P e w k c db = commit_tx P e k c (get_account k db) (w db)"
  using assms by (auto simp: apply_tx_def split: option.splits)

lemma apply_tx_replay:
  assumes "get_transaction (tc_event_id c) db = Some t" and "same_transaction t c"
    and "k = tc_account_id c" and "get_account k db = Some a"
  shows "apply_tx P e w k c db =
     (Inr (\<lparr>tr_event_id = tx_event_id t, tr_account_id = tx_account_id t, tr_applied = True,
        tr_replay = True, tr_balance = ac_balance a, tr_currency = ac_currency a,
        tr_applied_at = tx_applied_at t\<rparr>, False),
      acct_audit P e ''TRANSACTION_REPLAYED'' ''REPLAY'' (tc_event_id c) k None db)"
  using assms by (simp add: apply_tx_def tx_replay_def result_of_def)

text \<open>A request that succeeded left its transaction and its account behind.\<close>

lemma commit_tx_success:
  assumes "commit_tx P e k c account db = (Inr (r, b), db')" and "k = tc_account_id c"
    and "num_col P (tc_amount c) = tc_amount c" and "ts_exact P (tc_timestamp c)"
  shows "(\<exists>t. get_transaction (tc_event_id c) db' = Some t \<and> same_transaction t c) \<and> get_account k db' \<noteq> None"
  using assms
  by (auto simp: commit_tx_def commit_writes tx_replay_def tx_conflict_def Let_def result_of_def
      same_transaction_def utc_naive_eq_iff ts_exact_def split: option.splits if_splits)

lemma apply_tx_success:
  assumes "apply_tx P e w k c db = (Inr (r, b), db')"
    and "num_col P (tc_amount c) = tc_amount c" and "ts_exact P (tc_timestamp c)"
  shows "k = tc_account_id c \<and> (\<exists>t. get_transaction (tc_event_id c) db' = Some t \<and> same_transaction t c)
    \<and> get_account k db' \<noteq> None"
proof -
  have k: "k = tc_account_id c" using assms(1) by (auto simp: apply_tx_def split: if_splits)
  show ?thesis
  proof (cases "get_transaction (tc_event_id c) db")
    case (Some t)
    with assms(1) k show ?thesis
      by (auto simp: apply_tx_def tx_replay_def tx_conflict_def Let_def result_of_def
          split: if_splits option.splits)
  next
    case None
    with assms(1) k have "\<exists>account. commit_tx P e k c account (w db) = (Inr (r, b), db')"
      by (auto simp: apply_tx_def split: if_splits option.splits)
    with k assms(2,3) commit_tx_success show ?thesis by blast
  qed
qed


definition tx_credit :: "string \<Rightarrow> money \<Rightarrow> transaction_create" where
  "tx_credit ev amount = \<lparr>tc_event_id = ev, tc_account_id = ''acct-1'', tc_type = CREDIT,
     tc_amount = amount, tc_currency = ''USD'', tc_timestamp = utc 1000\<rparr>"

definition env0 :: env where
  "env0 = \<lparr>now = utc 5000, trace = ''trace-1''\<rparr>"

lemma first_credit:
  "\<exists>r db. apply_tx exact_platform env0 id ''acct-1'' (tx_credit ev m) empty_acct_db = (Inr (r, True), db)"
  by (simp add: apply_tx_def tx_credit_def commit_tx_def commit_writes get_account_def
      get_transaction_def empty_acct_db_def committed_def tget_Cons result_of_def)


text \<open>A transaction at one o'clock, one hour east of UTC.\<close>

definition tx_plus_one_hour :: transaction_create where
  "tx_plus_one_hour = (tx_credit ''evt-1'' 1000)\<lparr>tc_timestamp := \<lparr>wall = 3600000000, offset = Some 3600000000\<rparr>\<rparr>"

text \<open>
  Without such a column the promise fails: on a backend that stores the wall clock and drops
  the offset, an identical redelivery of a transaction whose timestamp is not in UTC is rejected as
  a conflict.
\<close>

theorem offset_replay_conflicts:
  "\<exists>r db. apply_tx sqlite_platform env0 id ''acct-1'' tx_plus_one_hour empty_acct_db = (Inr (r, True), db)
     \<and> fst (apply_tx sqlite_platform env0 id ''acct-1'' tx_plus_one_hour db)
       = Inl (conflict ''eventId already exists with different transaction data'')"
  by (simp add: apply_tx_def tx_plus_one_hour_def tx_credit_def commit_tx_def commit_writes
      get_account_def get_transaction_def empty_acct_db_def committed_def tget_Cons result_of_def
      same_transaction_def utc_naive_eq_iff instant_def tx_conflict_def utc_def)

section \<open>Refinement\<close>

text \<open>
  C4. The service implements the abstract ledger. Whatever other sessions commit between the reads
  of a request and its commit, if the account row it read is unchanged then outcome and effect are
  those of the ledger: the verdict (applied, replayed, conflict, currency mismatch, wrong account),
  the new ledger, the invariant that every balance is credits minus debits, and the reported
  balance.
\<close>

theorem apply_implements_ledger:
  assumes "acct_inv db" and "0 < tc_amount c" and "bounded_platform P c (w db)"
    and "acct_inv (w db)" and "get_account k (w db) = get_account k db"
  shows "\<exists>base \<in> {db, w db}. refines_ledger k c base (apply_tx P e w k c db)"
  using assms by (rule apply_tx_refines)

theorem apply_implements_ledger_witness:
  "refines_ledger ''acct-1'' (tx_credit ''evt-1'' 1000) empty_acct_db
     (apply_tx exact_platform env0 id ''acct-1'' (tx_credit ''evt-1'' 1000) empty_acct_db)"
proof -
  have "\<exists>base \<in> {empty_acct_db, id empty_acct_db}. refines_ledger ''acct-1'' (tx_credit ''evt-1'' 1000) base
     (apply_tx exact_platform env0 id ''acct-1'' (tx_credit ''evt-1'' 1000) empty_acct_db)"
    by (rule apply_implements_ledger) (simp_all add: acct_inv_empty bounded_platform_def tx_credit_def)
  then show ?thesis by simp
qed

section \<open>Transactions are immutable\<close>

lemma commit_tx_keeps:
  "get_transaction j db = Some t \<Longrightarrow> get_transaction j (snd (commit_tx P e k c account db)) = Some t"
  by (auto simp: commit_tx_def commit_writes tx_replay_def tx_conflict_def Let_def
      split: option.splits if_splits)

lemma committed_uniq:
  "uniq tx_event_id (ad_transactions db) \<Longrightarrow> get_transaction (tc_event_id c) db = None \<Longrightarrow>
   uniq tx_event_id (ad_transactions (committed P e k c account db))"
  by (auto simp: committed_def uniq_def get_transaction_def tget_None)

lemma commit_tx_uniq:
  "uniq tx_event_id (ad_transactions db) \<Longrightarrow> uniq tx_event_id (ad_transactions (snd (commit_tx P e k c account db)))"
  by (auto simp: commit_tx_def commit_writes tx_replay_def tx_conflict_def Let_def committed_uniq
      split: option.splits if_splits)

lemma apply_tx_snd:
  "snd (apply_tx P e w k c db) = snd (commit_tx P e k c (get_account k db) (w db))
   \<or> (\<exists>ac out det. snd (apply_tx P e w k c db) = acct_audit P e ac out (tc_event_id c) k det db)"
  by (auto simp: apply_tx_def tx_replay_def tx_conflict_def Let_def split: option.splits)



section \<open>Rejections\<close>

lemma commit_tx_rejects:
  "fst (commit_tx P e k c account db) = Inl err \<Longrightarrow> get_account k db = account \<Longrightarrow>
   ad_accounts (snd (commit_tx P e k c account db)) = ad_accounts db
   \<and> ad_transactions (snd (commit_tx P e k c account db)) = ad_transactions db"
proof (cases "get_transaction (tc_event_id c) db")
  case None
  assume err: "fst (commit_tx P e k c account db) = Inl err" and acc: "get_account k db = account"
  obtain a where "get_account k (committed P e k c account db) = Some a"
    using get_account_own_committed [OF acc] by metis
  from err commit_tx_new [OF acc None this] show ?thesis by simp
next
  case (Some t)
  assume "get_account k db = account"
  with Some show ?thesis
    by (cases account) (auto simp: commit_tx_def commit_writes tx_replay_def tx_conflict_def Let_def)
qed

text \<open>
  A rejected request leaves the ledger alone: when a request that runs alone ends in an error,
  accounts and transactions are as before; only the audit trail may have grown.
\<close>

theorem rejection_changes_nothing:
  assumes "fst (apply_tx P e id k c db) = Inl err"
  shows "ad_accounts (snd (apply_tx P e id k c db)) = ad_accounts db
    \<and> ad_transactions (snd (apply_tx P e id k c db)) = ad_transactions db"
proof (cases "k = tc_account_id c \<and> get_transaction (tc_event_id c) db = None
    \<and> (\<forall>a. get_account k db = Some a \<longrightarrow> ac_currency a = tc_currency c)")
  case True
  then have "apply_tx P e id k c db = commit_tx P e k c (get_account k db) db"
    using apply_tx_cases [of k c db P e id] by simp
  with assms commit_tx_rejects show ?thesis by simp
next
  case False
  then show ?thesis
    by (auto simp: apply_tx_def tx_replay_def tx_conflict_def Let_def split: option.splits)
qed

theorem rejection_changes_nothing_witness:
  "fst (apply_tx exact_platform env0 id ''acct-2'' (tx_credit ''evt-1'' 5) empty_acct_db) = Inl account_mismatch
   \<and> ad_accounts (snd (apply_tx exact_platform env0 id ''acct-2'' (tx_credit ''evt-1'' 5) empty_acct_db)) = []"
proof -
  have e: "fst (apply_tx exact_platform env0 id ''acct-2'' (tx_credit ''evt-1'' 5) empty_acct_db) = Inl account_mismatch"
    by (simp add: apply_tx_def tx_credit_def)
  from rejection_changes_nothing [OF e] have
    "ad_accounts (snd (apply_tx exact_platform env0 id ''acct-2'' (tx_credit ''evt-1'' 5) empty_acct_db)) = []"
    by (simp add: empty_acct_db_def)
  with e show ?thesis by blast
qed

section \<open>The audit trail\<close>

text \<open>
  Exactly one \<open>TRANSACTION_APPLIED\<close> and one \<open>BALANCE_UPDATED\<close> record for every transaction, and
  none for an event id without one: the records are written in the transaction's own commit.
\<close>

definition audit_inv :: "acct_db \<Rightarrow> bool" where
  "audit_inv db \<longleftrightarrow> (\<forall>ev. \<forall>action \<in> {''TRANSACTION_APPLIED'', ''BALANCE_UPDATED''}.
     audit_count action ev (ad_audits db) = (if get_transaction ev db = None then 0 else 1))"

text \<open>A request with its surroundings: platform, clock, concurrent commits, URL account, body.\<close>

record request =
  rq_platform :: platform
  rq_env :: env
  rq_others :: "acct_db \<Rightarrow> acct_db"
  rq_account :: string
  rq_command :: transaction_create

definition serve :: "request \<Rightarrow> acct_db \<Rightarrow> acct_db" where
  "serve r db = snd (apply_tx (rq_platform r) (rq_env r) (rq_others r) (rq_account r) (rq_command r) db)"

lemma audit_count_applied [simp]:
  "audit_count action ev (applied_audits P e k c account rows) = audit_count action ev rows
     + (if ev = tc_event_id c \<and> account = None \<and> action = ''ACCOUNT_CREATED'' then 1 else 0)
     + (if ev = tc_event_id c \<and> action = ''BALANCE_UPDATED'' then 1 else 0)
     + (if ev = tc_event_id c \<and> action = ''TRANSACTION_APPLIED'' then 1 else 0)"
  by (auto simp: applied_audits_def Let_def)

lemma audit_inv_audit:
  "audit_inv db \<Longrightarrow> action \<notin> {''TRANSACTION_APPLIED'', ''BALANCE_UPDATED''} \<Longrightarrow>
   audit_inv (acct_audit P e action out ev k det db)"
  by (auto simp: audit_inv_def acct_audit_eq get_transaction_def)

lemma ad_audits_committed [simp]:
  "ad_audits (committed P e k c account db) = applied_audits P e k c account (ad_audits db)"
  by (simp add: committed_def)

lemma audit_inv_committed:
  "audit_inv db \<Longrightarrow> get_transaction (tc_event_id c) db = None \<Longrightarrow> audit_inv (committed P e k c account db)"
  by (auto simp: audit_inv_def split: option.splits)

lemma audit_inv_commit_tx: "audit_inv db \<Longrightarrow> audit_inv (snd (commit_tx P e k c account db))"
  by (auto simp: commit_tx_def commit_writes tx_replay_def tx_conflict_def Let_def audit_inv_audit
      audit_inv_committed split: option.splits if_splits)

lemma audit_inv_apply_tx:
  assumes "audit_inv db" and "audit_inv (w db)"
  shows "audit_inv (snd (apply_tx P e w k c db))"
  using assms
  by (auto simp: apply_tx_def tx_replay_def tx_conflict_def Let_def audit_inv_audit audit_inv_commit_tx
      split: option.splits)

interpretation audit_run: invariant_machine serve
    "\<lambda>r. \<forall>db. audit_inv db \<longrightarrow> audit_inv (rq_others r db)" audit_inv
  by unfold_locales (simp add: serve_def audit_inv_apply_tx)

lemma audit_inv_empty: "audit_inv empty_acct_db"
  by (simp add: audit_inv_def empty_acct_db_def get_transaction_def)

text \<open>
  C33. The audit trail is complete and exact: after any sequence of requests, overlapping with any
  other sessions that keep the trail exact, every transaction has exactly one
  \<open>TRANSACTION_APPLIED\<close> and one \<open>BALANCE_UPDATED\<close> record, and an event id without a transaction
  has none, however often it was rejected or replayed.
\<close>

theorem audit_trail_exact:
  assumes "list_all (\<lambda>r. \<forall>db. audit_inv db \<longrightarrow> audit_inv (rq_others r db)) rs"
  shows "audit_inv (fold serve rs empty_acct_db)"
  by (rule audit_run.run_inv [OF audit_inv_empty assms])

definition sample_request :: "string \<Rightarrow> money \<Rightarrow> request" where
  "sample_request ev m = \<lparr>rq_platform = exact_platform, rq_env = env0, rq_others = id,
     rq_account = ''acct-1'', rq_command = tx_credit ev m\<rparr>"

theorem audit_trail_exact_witness:
  "audit_inv (fold serve [sample_request ''e1'' 10, sample_request ''e1'' 10, sample_request ''e1'' 20] empty_acct_db)"
  by (rule audit_trail_exact) (simp add: sample_request_def)

section \<open>Runs and the order of arrival\<close>

type_synonym arrival = "env \<times> transaction_create"

text \<open>Requests served one after the other, each with the URL of its own account.\<close>

definition serve_one :: "platform \<Rightarrow> arrival \<Rightarrow> acct_db \<Rightarrow> acct_db" where
  "serve_one P r db = snd (apply_tx P (fst r) id (tc_account_id (snd r)) (snd r) db)"

definition serve_all :: "platform \<Rightarrow> arrival list \<Rightarrow> acct_db \<Rightarrow> acct_db" where
  "serve_all P rs db = fold (serve_one P) rs db"

definition total :: "arrival list \<Rightarrow> money" where
  "total rs = sum_list (map (\<lambda>r. tc_amount (snd r)) rs)"

definition arrival_ok :: "platform \<Rightarrow> arrival \<Rightarrow> bool" where
  "arrival_ok P r \<longleftrightarrow> 0 < tc_amount (snd r) \<and> ts_exact P (tc_timestamp (snd r))"

lemma ledger_apply_volume:
  "0 < tc_amount c \<Longrightarrow> volume (snd (ledger_apply k c L)) \<le> volume L + tc_amount c"
  by (auto simp: ledger_apply_def entry_of_def split: option.splits)

lemma num_exact_mono: "num_exact P B \<Longrightarrow> B' \<le> B \<Longrightarrow> num_exact P B'"
  by (auto simp: num_exact_def)

lemma serve_one_refines:
  assumes "acct_inv db" and "arrival_ok P r" and "num_exact P B" and "volume (ledger_of db) + tc_amount (snd r) < B"
  shows "acct_inv (serve_one P r db)
    \<and> ledger_of (serve_one P r db) = snd (ledger_apply (tc_account_id (snd r)) (snd r) (ledger_of db))"
proof -
  have "num_exact P (volume (ledger_of db) + \<bar>tc_amount (snd r)\<bar> + 1)"
    using assms(2,4) by (intro num_exact_mono [OF assms(3)]) (simp add: arrival_ok_def)
  then have "bounded_platform P (snd r) (id db)"
    using assms(2) by (simp add: bounded_platform_def arrival_ok_def)
  then have "\<exists>base \<in> {db, id db}. refines_ledger (tc_account_id (snd r)) (snd r) base
      (apply_tx P (fst r) id (tc_account_id (snd r)) (snd r) db)"
    using assms(1,2) by (intro apply_tx_refines) (simp_all add: arrival_ok_def)
  then show ?thesis by (simp add: refines_ledger_def serve_one_def)
qed

lemma serve_all_refines:
  assumes "acct_inv db" and "list_all (arrival_ok P) rs" and "num_exact P B"
    and "volume (ledger_of db) + total rs < B"
  shows "acct_inv (serve_all P rs db)
    \<and> ledger_of (serve_all P rs db)
      = fold (\<lambda>r L. snd (ledger_apply (tc_account_id (snd r)) (snd r) L)) rs (ledger_of db)"
  using assms
proof (induction rs arbitrary: db)
  case Nil
  then show ?case by (simp add: serve_all_def)
next
  case (Cons r rs)
  have pos: "0 \<le> total rs" using Cons.prems(2) unfolding total_def
    by (intro sum_list_nonneg) (auto simp: list_all_iff arrival_ok_def)
  have one: "acct_inv (serve_one P r db)"
      "ledger_of (serve_one P r db) = snd (ledger_apply (tc_account_id (snd r)) (snd r) (ledger_of db))"
    using serve_one_refines [of db P r B] Cons.prems pos by (auto simp: total_def)
  have "volume (ledger_of (serve_one P r db)) + total rs < B"
  proof -
    have "volume (snd (ledger_apply (tc_account_id (snd r)) (snd r) (ledger_of db)))
        \<le> volume (ledger_of db) + tc_amount (snd r)"
      using Cons.prems(2) by (intro ledger_apply_volume) (simp add: arrival_ok_def)
    moreover have "total (r # rs) = tc_amount (snd r) + total rs" by (simp add: total_def)
    ultimately show ?thesis using Cons.prems(4) unfolding one(2) by linarith
  qed
  then show ?case
    using Cons.IH [OF one(1)] Cons.prems(2,3) one(2) by (simp add: serve_all_def)
qed

text \<open>
  C5. Balances are always credits minus debits: after any sequence of requests served one after the
  other, whatever their accounts, currencies, repetitions and conflicts, the balance of every account
  is the sum of its credit transactions minus the sum of its debit transactions, every transaction
  has its account in its currency, and event ids are unique. The columns must be exact up to the
  total volume.
\<close>

theorem balances_over_runs:
  assumes "list_all (arrival_ok P) rs" and "num_exact P B" and "total rs < B"
  shows "acct_inv (serve_all P rs empty_acct_db)"
proof -
  have "volume (ledger_of empty_acct_db) = 0" by (simp add: volume_def ledger_of_def empty_acct_db_def)
  with assms show ?thesis using serve_all_refines [OF acct_inv_empty] by simp
qed

definition sample_arrivals :: "arrival list" where
  "sample_arrivals = [(env0, tx_credit ''e1'' 1000), (env0, (tx_credit ''e2'' 300)\<lparr>tc_type := DEBIT\<rparr>),
     (env0, tx_credit ''e1'' 1000), (env0, (tx_credit ''e3'' 5)\<lparr>tc_currency := ''EUR''\<rparr>)]"

theorem balances_over_runs_witness: "acct_inv (serve_all exact_platform sample_arrivals empty_acct_db)"
  by (rule balances_over_runs [where B = 10000])
     (simp_all add: sample_arrivals_def arrival_ok_def tx_credit_def total_def)

text \<open>
  Requests that do not clash: every event id once, one currency for each account.
\<close>

definition compatible :: "arrival list \<Rightarrow> bool" where
  "compatible rs \<longleftrightarrow> distinct (map (\<lambda>r. tc_event_id (snd r)) rs)
     \<and> (\<forall>r \<in> set rs. \<forall>q \<in> set rs. tc_account_id (snd r) = tc_account_id (snd q)
          \<longrightarrow> tc_currency (snd r) = tc_currency (snd q))"

definition entries :: "arrival list \<Rightarrow> ledger" where
  "entries rs = map (\<lambda>r. (tc_event_id (snd r), entry_of (snd r))) rs"

lemma compatible_ids: "compatible rs \<Longrightarrow> distinct (map (\<lambda>r. tc_event_id (snd r)) rs)"
  unfolding compatible_def by (rule conjunct1)

lemma compatible_currency:
  "compatible rs \<Longrightarrow> r \<in> set rs \<Longrightarrow> q \<in> set rs \<Longrightarrow> tc_account_id (snd r) = tc_account_id (snd q) \<Longrightarrow>
   tc_currency (snd r) = tc_currency (snd q)"
  unfolding compatible_def by blast

lemma compatibleI:
  assumes "distinct (map (\<lambda>r. tc_event_id (snd r)) rs)"
    and "\<And>r q. r \<in> set rs \<Longrightarrow> q \<in> set rs \<Longrightarrow> tc_account_id (snd r) = tc_account_id (snd q) \<Longrightarrow>
      tc_currency (snd r) = tc_currency (snd q)"
  shows "compatible rs"
  using assms unfolding compatible_def by blast

lemma compatible_snoc:
  assumes c: "compatible (rs @ [r])"
  shows "compatible rs" and "map_of (entries rs) (tc_event_id (snd r)) = None"
    and "\<not> list_ex (\<lambda>(_, en). en_account en = tc_account_id (snd r) \<and> en_currency en \<noteq> tc_currency (snd r)) (entries rs)"
proof -
  have ids: "distinct (map (\<lambda>r. tc_event_id (snd r)) (rs @ [r]))" by (rule compatible_ids [OF c])
  then show "compatible rs" using compatible_currency [OF c] by (intro compatibleI) auto
  have "tc_event_id (snd r) \<notin> fst ` set (entries rs)"
    using ids by (simp add: entries_def image_image)
  then show "map_of (entries rs) (tc_event_id (snd r)) = None" by (simp add: map_of_eq_None_iff)
  have "tc_currency (snd q) = tc_currency (snd r)"
    if "q \<in> set rs" "tc_account_id (snd q) = tc_account_id (snd r)" for q
    by (rule compatible_currency [OF c]) (use that in auto)
  then show "\<not> list_ex (\<lambda>(_, en). en_account en = tc_account_id (snd r) \<and> en_currency en \<noteq> tc_currency (snd r)) (entries rs)"
    by (auto simp: list_ex_iff entries_def entry_of_def)
qed

lemma ledger_run_compatible:
  "compatible rs \<Longrightarrow> fold (\<lambda>r L. snd (ledger_apply (tc_account_id (snd r)) (snd r) L)) rs [] = entries rs"
proof (induction rs rule: rev_induct)
  case Nil
  then show ?case by (simp add: entries_def)
next
  case (snoc r rs)
  note fresh = compatible_snoc [OF snoc.prems]
  have "fold (\<lambda>r L. snd (ledger_apply (tc_account_id (snd r)) (snd r) L)) (rs @ [r]) []
      = snd (ledger_apply (tc_account_id (snd r)) (snd r) (entries rs))"
    using snoc.IH [OF fresh(1)] by simp
  also have "\<dots> = entries rs @ [(tc_event_id (snd r), entry_of (snd r))]"
    unfolding ledger_apply_def using fresh(2,3) by simp
  finally show ?case by (simp add: entries_def)
qed

lemma ledger_balance_sum_mset:
  "ledger_balance k L = sum_mset (image_mset (\<lambda>(_, en). delta_of (en_type en) (en_amount en))
     (filter_mset (\<lambda>(_, en). en_account en = k) (mset L)))"
  by (simp add: ledger_balance_delta flip: sum_mset_sum_list)

lemma ledger_balance_mset: "mset L = mset M \<Longrightarrow> ledger_balance k L = ledger_balance k M"
  by (simp add: ledger_balance_sum_mset)

lemma total_sum_mset: "total rs = sum_mset (image_mset (\<lambda>r. tc_amount (snd r)) (mset rs))"
  by (simp add: total_def flip: sum_mset_sum_list)

lemma balance_of_ledger:
  assumes "acct_inv db"
  shows "map_option ac_balance (get_account k db) =
    (if list_ex (\<lambda>(_, en). en_account en = k) (ledger_of db) then Some (ledger_balance k (ledger_of db)) else None)"
proof (cases "get_account k db")
  case None
  then show ?thesis using no_account_no_entry [OF assms None] by (auto simp: list_ex_iff)
next
  case (Some a)
  obtain t where "t \<in> set (ad_transactions db)" "tx_account_id t = k"
    using acct_inv_account(2) [OF assms] get_account_mem [OF Some] by blast
  then have "list_ex (\<lambda>(_, en). en_account en = k) (ledger_of db)"
    by (auto simp: list_ex_iff ledger_of_def entry_of_tx_def)
  with Some account_balance [OF assms Some] show ?thesis by simp
qed

text \<open>
  The order of arrival does not matter: two sequences with the same requests in different
  orders, every event id once and one currency for each account, lead to the same accounts with the
  same balances.
\<close>

theorem arrival_order_irrelevant:
  assumes "mset rs = mset qs" and "compatible rs" and "list_all (arrival_ok P) rs"
    and "num_exact P B" and "total rs < B"
  shows "map_option ac_balance (get_account k (serve_all P rs empty_acct_db))
       = map_option ac_balance (get_account k (serve_all P qs empty_acct_db))"
proof -
  have sets: "set rs = set qs" by (rule mset_eq_setD [OF assms(1)])
  have qs: "compatible qs" "list_all (arrival_ok P) qs" "total qs < B"
  proof -
    have "mset (map (\<lambda>r. tc_event_id (snd r)) rs) = mset (map (\<lambda>r. tc_event_id (snd r)) qs)"
      using assms(1) by simp
    from mset_eq_imp_distinct_iff [OF this] compatible_ids [OF assms(2)]
    have "distinct (map (\<lambda>r. tc_event_id (snd r)) qs)" by blast
    then show "compatible qs" using compatible_currency [OF assms(2)] unfolding sets by (rule compatibleI)
    show "list_all (arrival_ok P) qs" using assms(3) sets by (simp add: list_all_iff)
    have "total rs = total qs" by (simp add: total_sum_mset assms(1))
    with assms(5) show "total qs < B" by simp
  qed
  have run: "acct_inv (serve_all P xs empty_acct_db) \<and> ledger_of (serve_all P xs empty_acct_db) = entries xs"
    if "compatible xs" "list_all (arrival_ok P) xs" "total xs < B" for xs
    using serve_all_refines [OF acct_inv_empty that(2) assms(4)] that(3) ledger_run_compatible [OF that(1)]
    by (simp add: volume_def ledger_of_def empty_acct_db_def)
  have "mset (entries rs) = mset (entries qs)" using assms(1) by (simp add: entries_def)
  then have "ledger_balance k (entries rs) = ledger_balance k (entries qs)"
      and "set (entries rs) = set (entries qs)"
    by (rule ledger_balance_mset, rule mset_eq_setD)
  with run [OF assms(2,3,5)] run [OF qs] show ?thesis
    by (simp add: balance_of_ledger list_ex_iff)
qed

theorem arrival_order_irrelevant_witness:
  "map_option ac_balance (get_account ''acct-1'' (serve_all exact_platform
      [(env0, tx_credit ''e1'' 1000), (env0, (tx_credit ''e2'' 300)\<lparr>tc_type := DEBIT\<rparr>)] empty_acct_db))
   = map_option ac_balance (get_account ''acct-1'' (serve_all exact_platform
      [(env0, (tx_credit ''e2'' 300)\<lparr>tc_type := DEBIT\<rparr>), (env0, tx_credit ''e1'' 1000)] empty_acct_db))"
  by (rule arrival_order_irrelevant [where B = 10000])
     (simp_all add: compatible_def arrival_ok_def tx_credit_def total_def)

section \<open>Two races\<close>

text \<open>
  The other request that commits while this one is between its reads and its commit.
\<close>

definition overtaken_by :: "platform \<Rightarrow> env \<Rightarrow> transaction_create \<Rightarrow> acct_db \<Rightarrow> acct_db" where
  "overtaken_by P e c db = snd (apply_tx P e id (tc_account_id c) c db)"

text \<open>
  C34. Lost update: two new transactions on one existing account that overlap are both answered as
  applied and both recorded, but the balance misses the one that committed first, because the
  update writes the balance computed from the row read earlier. The invariant \<open>credits minus
  debits\<close> is broken for good.
\<close>

theorem lost_update:
  assumes inv: "acct_inv db" and a: "get_account k db = Some a"
    and k: "tc_account_id c1 = k" "tc_account_id c2 = k"
    and cur: "tc_currency c1 = ac_currency a" "tc_currency c2 = ac_currency a"
    and new: "get_transaction (tc_event_id c1) db = None" "get_transaction (tc_event_id c2) db = None"
    and differ: "tc_event_id c1 \<noteq> tc_event_id c2"
    and P: "\<And>x. num_col P x = x" "ts_exact P (tc_timestamp c1)" "ts_exact P (tc_timestamp c2)"
    and amount: "0 < tc_amount c2"
  shows "\<exists>r1 r2 db'. fst (apply_tx P e2 id k c2 db) = Inr (r2, True)
    \<and> apply_tx P e1 (overtaken_by P e2 c2) k c1 db = (Inr (r1, True), db')
    \<and> get_transaction (tc_event_id c1) db' \<noteq> None \<and> get_transaction (tc_event_id c2) db' \<noteq> None
    \<and> map_option ac_balance (get_account k db') = Some (ac_balance a + delta_of (tc_type c1) (tc_amount c1))
    \<and> ledger_balance k (ledger_of db')
        = ac_balance a + delta_of (tc_type c1) (tc_amount c1) + delta_of (tc_type c2) (tc_amount c2)
    \<and> \<not> acct_inv db'"
proof -
  let ?db2 = "committed P e2 k c2 (Some a) db" and ?n = "set_balance P (new_balance (Some a) c2) (now e2) a"
  let ?db' = "committed P e1 k c1 (Some a) ?db2"
  let ?a' = "set_balance P (new_balance (Some a) c1) (now e1) ?n"
  have own2: "get_account k ?db2 = Some ?n" using a by (simp add: get_account_committed)
  have ap2: "\<exists>r2. apply_tx P e2 id k c2 db = (Inr (r2, True), ?db2)"
    using apply_tx_cases [of k c2 db P e2 id] k cur new a commit_tx_new [OF a new(2) own2] by auto
  then have w: "overtaken_by P e2 c2 db = ?db2" by (auto simp: overtaken_by_def k)
  have "get_account k ?db' = map_option (set_balance P (new_balance (Some a) c1) (now e1)) (get_account k ?db2)"
    by (subst get_account_committed) simp
  then have own1: "get_account k ?db' = Some ?a'" unfolding own2 by simp
  have new1: "get_transaction (tc_event_id c1) ?db2 = None" using new differ by simp
  have "\<exists>r1. commit_tx P e1 k c1 (Some a) ?db2 = (Inr (r1, True), ?db')"
    using own2 new1 own1 by (auto simp: commit_tx_def commit_writes result_of_def)
  with w have ap1: "\<exists>r1. apply_tx P e1 (overtaken_by P e2 c2) k c1 db = (Inr (r1, True), ?db')"
    using apply_tx_cases [of k c1 db P e1 "overtaken_by P e2 c2"] k cur new a by auto
  have L: "ledger_of ?db' = (ledger_of db @ [(tc_event_id c2, entry_of c2)]) @ [(tc_event_id c1, entry_of c1)]"
    using P k by (simp add: ledger_of_committed)
  have bal: "ledger_balance k (ledger_of ?db')
      = ac_balance a + delta_of (tc_type c1) (tc_amount c1) + delta_of (tc_type c2) (tc_amount c2)"
    unfolding L ledger_balance_snoc using k account_balance [OF inv a] by (simp add: entry_of_def)
  have row: "ac_balance ?a' = ac_balance a + delta_of (tc_type c1) (tc_amount c1)"
    using P by (simp add: new_balance_def)
  have "delta_of (tc_type c2) (tc_amount c2) \<noteq> 0" using amount by (simp add: delta_of_def)
  with account_balance [of ?db' k ?a'] own1 bal row have "\<not> acct_inv ?db'" by auto
  with ap1 ap2 own1 row bal new show ?thesis by force
qed

definition one_account :: acct_db where
  "one_account = serve_one exact_platform (env0, tx_credit ''e0'' 1000) empty_acct_db"

lemma one_account_facts:
  "acct_inv one_account" "\<exists>a. get_account ''acct-1'' one_account = Some a \<and> ac_currency a = ''USD'' \<and> ac_balance a = 1000"
  "ev \<noteq> ''e0'' \<Longrightarrow> get_transaction ev one_account = None"
proof -
  have run: "one_account = serve_all exact_platform [(env0, tx_credit ''e0'' 1000)] empty_acct_db"
    by (simp add: one_account_def serve_all_def)
  have "acct_inv (serve_all exact_platform [(env0, tx_credit ''e0'' 1000)] empty_acct_db)
      \<and> ledger_of (serve_all exact_platform [(env0, tx_credit ''e0'' 1000)] empty_acct_db) = entries [(env0, tx_credit ''e0'' 1000)]"
    using serve_all_refines [OF acct_inv_empty, of exact_platform "[(env0, tx_credit ''e0'' 1000)]" 10000]
      ledger_run_compatible [of "[(env0, tx_credit ''e0'' 1000)]"]
    by (simp add: arrival_ok_def tx_credit_def total_def volume_def ledger_of_def empty_acct_db_def compatible_def)
  then show "acct_inv one_account" unfolding run by blast
  show "\<exists>a. get_account ''acct-1'' one_account = Some a \<and> ac_currency a = ''USD'' \<and> ac_balance a = 1000"
    and "ev \<noteq> ''e0'' \<Longrightarrow> get_transaction ev one_account = None"
    by (simp_all add: one_account_def serve_one_def apply_tx_def tx_credit_def commit_tx_def commit_writes
        get_account_def get_transaction_def empty_acct_db_def committed_def tget_Cons new_balance_def
        delta_of_def)
qed

theorem lost_update_witness:
  "\<exists>db'. (\<exists>r. apply_tx exact_platform env0 (overtaken_by exact_platform env0 (tx_credit ''e2'' 20))
        ''acct-1'' (tx_credit ''e1'' 10) one_account = (Inr (r, True), db'))
     \<and> map_option ac_balance (get_account ''acct-1'' db') = Some 1010
     \<and> ledger_balance ''acct-1'' (ledger_of db') = 1030"
proof -
  obtain a where a: "get_account ''acct-1'' one_account = Some a" "ac_currency a = ''USD''" "ac_balance a = 1000"
    using one_account_facts(2) by blast
  have cur: "tc_currency (tx_credit ''e1'' 10) = ac_currency a" "tc_currency (tx_credit ''e2'' 20) = ac_currency a"
    and k: "tc_account_id (tx_credit ''e1'' 10) = ''acct-1''" "tc_account_id (tx_credit ''e2'' 20) = ''acct-1''"
    and new: "get_transaction (tc_event_id (tx_credit ''e1'' 10)) one_account = None"
      "get_transaction (tc_event_id (tx_credit ''e2'' 20)) one_account = None"
    using a one_account_facts(3) by (simp_all add: tx_credit_def)
  show ?thesis
    using lost_update [OF one_account_facts(1) a(1) k cur new, of exact_platform env0 env0] a(3)
    by (simp add: tx_credit_def delta_of_def) blast
qed

text \<open>
  C35. The first transactions of an account can shut each other out: when two new transactions of
  one unknown account overlap, the later commit is answered \<open>409 EVENT_ID_CONFLICT\<close> although its
  event id is new, and its transaction is not recorded.
\<close>

theorem first_transaction_race:
  assumes none: "get_account k db = None"
    and k: "tc_account_id c1 = k" "tc_account_id c2 = k"
    and new: "get_transaction (tc_event_id c1) db = None" "get_transaction (tc_event_id c2) db = None"
    and differ: "tc_event_id c1 \<noteq> tc_event_id c2"
  shows "\<exists>r2 db'. fst (apply_tx P e2 id k c2 db) = Inr (r2, True)
    \<and> apply_tx P e1 (overtaken_by P e2 c2) k c1 db = (Inl (conflict ''eventId already exists''), db')
    \<and> get_transaction (tc_event_id c1) db' = None"
proof -
  let ?db2 = "committed P e2 k c2 None db"
  obtain n where own2: "get_account k ?db2 = Some n"
    using get_account_own_committed [OF none] by metis
  have ap2: "\<exists>r2. apply_tx P e2 id k c2 db = (Inr (r2, True), ?db2)"
    using apply_tx_cases [of k c2 db P e2 id] k new none commit_tx_new [OF none new(2) own2] by auto
  then have w: "overtaken_by P e2 c2 db = ?db2" by (auto simp: overtaken_by_def k)
  have new1: "get_transaction (tc_event_id c1) ?db2 = None" using new differ by simp
  have "apply_tx P e1 (overtaken_by P e2 c2) k c1 db = tx_conflict P e1 k c1 ''eventId already exists'' ?db2"
    using apply_tx_cases [of k c1 db P e1 "overtaken_by P e2 c2"] k new none w own2 new1
    by (simp add: commit_tx_def commit_writes)
  with ap2 new1 show ?thesis by (auto simp: tx_conflict_def)
qed

theorem first_transaction_race_witness:
  "\<exists>db'. apply_tx exact_platform env0 (overtaken_by exact_platform env0 (tx_credit ''e2'' 20))
      ''acct-1'' (tx_credit ''e1'' 10) empty_acct_db = (Inl (conflict ''eventId already exists''), db')
    \<and> get_transaction ''e1'' db' = None"
  using first_transaction_race [of "''acct-1''" empty_acct_db "tx_credit ''e1'' 10" "tx_credit ''e2'' 20"
      exact_platform env0 env0]
  by (auto simp: get_account_def get_transaction_def empty_acct_db_def tx_credit_def)

section \<open>The account view\<close>

lemma sorted_rev_key:
  "sorted_wrt (\<lambda>x y. f x \<ge> (f y :: 'b :: linorder)) (rev (sort_key f xs))"
proof -
  have "sorted_wrt (\<lambda>x y. f x \<le> f y) (sort_key f xs)"
    using sorted_sort_key [of f xs] by (simp add: sorted_map)
  then show ?thesis by (simp add: sorted_wrt_rev)
qed

lemma recent_transactions_sorted:
  "sorted_wrt (\<lambda>t u. (instant (tx_timestamp t), tx_event_id t) \<ge> (instant (tx_timestamp u), tx_event_id u))
     (recent_transactions k limit db)"
proof -
  let ?le = "\<lambda>t u. (instant (tx_timestamp t), tx_event_id t) \<ge> (instant (tx_timestamp u), tx_event_id u)"
  let ?rows = "rev (sort_key (\<lambda>t. (instant (tx_timestamp t), tx_event_id t))
    (filter (\<lambda>t. tx_account_id t = k) (ad_transactions db)))"
  have "sorted_wrt ?le ?rows" by (rule sorted_rev_key)
  then have "sorted_wrt ?le (if limit < 0 then ?rows else take (nat limit) ?rows)"
    by (simp only: sorted_wrt_take split: if_split) blast
  then show ?thesis by (simp only: recent_transactions_def Let_def)
qed

text \<open>
  The account view: the balance of the account and its newest transactions first, by event time
  and then event id, all of the account, at most \<open>limit\<close> of them, and all of them when there are no
  more than \<open>limit\<close>; an unknown account is answered with 404.
\<close>

theorem account_details_spec:
  "case get_account k db of
     None \<Rightarrow> get_account_details limit k db = Inl account_not_found
   | Some a \<Rightarrow> (\<exists>v rows. get_account_details limit k db = Inr v \<and> as_recent v = map tx_view rows
       \<and> br_balance (as_balance v) = ac_balance a \<and> br_currency (as_balance v) = ac_currency a
       \<and> rows = recent_transactions k limit db
       \<and> sorted_wrt (\<lambda>t u. (instant (tx_timestamp t), tx_event_id t) \<ge> (instant (tx_timestamp u), tx_event_id u)) rows
       \<and> set rows \<subseteq> {t \<in> set (ad_transactions db). tx_account_id t = k}
       \<and> length rows = (if limit < 0 then length (filter (\<lambda>t. tx_account_id t = k) (ad_transactions db))
            else min (nat limit) (length (filter (\<lambda>t. tx_account_id t = k) (ad_transactions db)))))"
  using recent_transactions_set [of k limit db] recent_transactions_sorted [of k limit db]
  by (auto simp: get_account_details_def balance_view_def recent_transactions_def Let_def split: option.splits)

end
