(* ===== verification/RateLimit.thy ===== *)
theory RateLimit
  imports Web "HOL-Library.Sublist"
begin

text \<open>
  The sliding-window rate limiter (\<open>event-gateway/app/core/rate_limit.py\<close>) and the middleware
  around it (\<open>_is_rate_limit_exempt\<close>, \<open>_rate_limit_key\<close> and \<open>rate_limit_middleware\<close> of
  \<open>event-gateway/app/main.py\<close>). Floating-point clock readings are rational numbers; the lock makes
  \<open>check\<close> and \<open>reset\<close> atomic, so each is one step.
\<close>

section \<open>The limiter\<close>

record decision =
  rd_allowed :: bool
  rd_limit :: int
  rd_remaining :: int
  rd_retry_after :: int
  rd_reset_after :: int

record limiter =
  rl_limit :: int
  rl_window :: rat
  rl_requests :: "string \<rightharpoonup> rat list"

definition make_limiter :: "int \<Rightarrow> rat \<Rightarrow> exn + limiter" where
  "make_limiter l window_seconds =
     (if l < 1 then Inl (OtherException ''limit must be at least 1'')
      else if window_seconds \<le> 0 then Inl (OtherException ''window_seconds must be positive'')
      else Inr \<lparr>rl_limit = l, rl_window = window_seconds, rl_requests = Map.empty\<rparr>)"

text \<open>The deque of a key; a \<open>defaultdict\<close> starts it empty.\<close>

definition deque :: "limiter \<Rightarrow> string \<Rightarrow> rat list" where
  "deque L key = (case rl_requests L key of None \<Rightarrow> [] | Some ts \<Rightarrow> ts)"

text \<open>The seconds until the oldest recorded request leaves the window, at least one.\<close>

definition seconds_left :: "rat \<Rightarrow> rat \<Rightarrow> rat \<Rightarrow> int" where
  "seconds_left oldest window current = max 1 \<lceil>oldest + window - current\<rceil>"

definition check :: "string \<Rightarrow> rat \<Rightarrow> limiter \<Rightarrow> (exn + decision) \<times> limiter" where
  "check key current L =
     (let cutoff = current - rl_window L;
          timestamps = dropWhile (\<lambda>t. t \<le> cutoff) (deque L key)
      in if rl_limit L \<le> int (length timestamps) then
           ((case timestamps of [] \<Rightarrow> Inl (OtherException ''IndexError'')
             | oldest # _ \<Rightarrow>
                 (let r = seconds_left oldest (rl_window L) current in
                  Inr \<lparr>rd_allowed = False, rd_limit = rl_limit L, rd_remaining = 0, rd_retry_after = r, rd_reset_after = r\<rparr>)),
            L\<lparr>rl_requests := (rl_requests L)(key \<mapsto> timestamps)\<rparr>)
         else
           (let timestamps' = timestamps @ [current] in
            (Inr \<lparr>rd_allowed = True, rd_limit = rl_limit L,
                  rd_remaining = max 0 (rl_limit L - int (length timestamps')), rd_retry_after = 0,
                  rd_reset_after = seconds_left (hd timestamps') (rl_window L) current\<rparr>,
             L\<lparr>rl_requests := (rl_requests L)(key \<mapsto> timestamps')\<rparr>)))"

definition reset :: "limiter \<Rightarrow> limiter" where
  "reset L = L\<lparr>rl_requests := Map.empty\<rparr>"

text \<open>Whether a check lets the request pass.\<close>

definition passes :: "string \<Rightarrow> rat \<Rightarrow> limiter \<Rightarrow> bool" where
  "passes key t L = (case fst (check key t L) of Inl _ \<Rightarrow> False | Inr d \<Rightarrow> rd_allowed d)"

fun run_checks :: "(string \<times> rat) list \<Rightarrow> limiter \<Rightarrow> (string \<times> rat \<times> bool) list \<times> limiter" where
  "run_checks [] L = ([], L)"
| "run_checks ((key, t) # reqs) L =
     (let L' = snd (check key t L); (trail, L'') = run_checks reqs L'
      in ((key, t, passes key t L) # trail, L''))"

section \<open>Lemmas\<close>

lemma deque_upd [simp]:
  "deque (L\<lparr>rl_requests := (rl_requests L)(key \<mapsto> ts)\<rparr>) j = (if j = key then ts else deque L j)"
  by (simp add: deque_def)

lemma dropWhile_filter_sorted:
  "sorted ts \<Longrightarrow> dropWhile (\<lambda>t. t \<le> c) ts = filter (\<lambda>t. (c :: rat) < t) ts"
proof (induction ts)
  case Nil
  then show ?case by simp
next
  case (Cons a ts)
  show ?case
  proof (cases "a \<le> c")
    case True
    with Cons show ?thesis by simp
  next
    case False
    with Cons.prems have "\<forall>t \<in> set (a # ts). c < t" by auto
    with False show ?thesis by simp
  qed
qed

definition live :: "string \<Rightarrow> rat \<Rightarrow> limiter \<Rightarrow> rat list" where
  "live key t L = dropWhile (\<lambda>u. u \<le> t - rl_window L) (deque L key)"

lemma check_params [simp]: "rl_limit (snd (check key t L)) = rl_limit L" "rl_window (snd (check key t L)) = rl_window L"
  by (simp_all add: check_def Let_def)

lemma passes_iff: "passes key t L \<longleftrightarrow> int (length (live key t L)) < rl_limit L"
  by (simp add: passes_def check_def Let_def live_def split: list.splits)

lemma check_room:
  assumes "int (length (live key t L)) < rl_limit L"
  shows "fst (check key t L) = Inr \<lparr>rd_allowed = True, rd_limit = rl_limit L,
     rd_remaining = max 0 (rl_limit L - int (length (live key t L @ [t]))), rd_retry_after = 0,
     rd_reset_after = seconds_left (hd (live key t L @ [t])) (rl_window L) t\<rparr>"
  using assms unfolding check_def Let_def live_def [symmetric] by simp

lemma check_full:
  assumes "rl_limit L \<le> int (length (live key t L))" and "live key t L = oldest # rest"
  shows "fst (check key t L) = Inr \<lparr>rd_allowed = False, rd_limit = rl_limit L, rd_remaining = 0,
     rd_retry_after = seconds_left oldest (rl_window L) t,
     rd_reset_after = seconds_left oldest (rl_window L) t\<rparr>"
  using assms unfolding check_def Let_def live_def [symmetric] by simp

lemma seconds_left_pos [simp]: "1 \<le> seconds_left a b c"
  by (simp add: seconds_left_def)

lemma deque_check: "deque (snd (check key t L)) j =
    (if j = key then live key t L @ (if passes key t L then [t] else []) else deque L j)"
  by (simp add: passes_iff) (simp add: check_def Let_def live_def)

text \<open>
  The invariant for one key, over the times \<open>h\<close> at which it was let through so far and the time
  \<open>c\<close> of the last check: the deque holds those of the last window, and no window holds more than
  the limit.
\<close>

definition window_inv :: "limiter \<Rightarrow> string \<Rightarrow> rat \<Rightarrow> rat list \<Rightarrow> bool" where
  "window_inv L key c h \<longleftrightarrow> sorted h \<and> (\<forall>t \<in> set h. t \<le> c)
     \<and> (\<exists>c' \<le> c. deque L key = filter (\<lambda>t. c' - rl_window L < t) h)
     \<and> (\<forall>x. int (length (filter (\<lambda>t. x - rl_window L < t \<and> t \<le> x) h)) \<le> rl_limit L)"

lemma window_inv_live:
  assumes "window_inv L key c h" and "c \<le> t"
  shows "live key t L = filter (\<lambda>u. t - rl_window L < u) h"
proof -
  from assms obtain c' where c': "c' \<le> c" "deque L key = filter (\<lambda>t. c' - rl_window L < t) h" and "sorted h"
    by (auto simp: window_inv_def)
  then have "sorted (deque L key)" using sorted_filter [of id] by simp
  then have "live key t L = filter (\<lambda>u. t - rl_window L < u) (filter (\<lambda>u. c' - rl_window L < u) h)"
    by (simp add: live_def dropWhile_filter_sorted c'(2))
  also have "\<dots> = filter (\<lambda>u. t - rl_window L < u) h"
    using c'(1) assms(2) by (auto simp: filter_filter intro!: filter_cong)
  finally show ?thesis .
qed

lemma window_inv_check:
  assumes inv: "window_inv L key c h" and "c \<le> t" and w: "0 < rl_window L"
  shows "window_inv (snd (check j t L)) key t (if j = key \<and> passes j t L then h @ [t] else h)"
proof (cases "j = key")
  case False
  have "\<exists>c' \<le> t. deque L key = filter (\<lambda>t. c' - rl_window L < t) h"
    using inv \<open>c \<le> t\<close> unfolding window_inv_def by (meson order_trans)
  moreover have "\<forall>u \<in> set h. u \<le> t" using inv \<open>c \<le> t\<close> by (auto simp: window_inv_def)
  ultimately show ?thesis using inv False by (simp add: window_inv_def deque_check)
next
  case key: True
  let ?L = "snd (check key t L)"
  note lv = window_inv_live [OF inv \<open>c \<le> t\<close>]
  have old: "sorted h" "\<forall>u \<in> set h. u \<le> t"
      "\<forall>x. int (length (filter (\<lambda>t. x - rl_window L < t \<and> t \<le> x) h)) \<le> rl_limit L"
    using inv \<open>c \<le> t\<close> by (auto simp: window_inv_def)
  show ?thesis
  proof (cases "passes key t L")
    case False
    then have "deque ?L key = filter (\<lambda>u. t - rl_window ?L < u) h" by (simp add: deque_check lv)
    with old False key show ?thesis by (auto simp: window_inv_def intro!: exI [of _ t])
  next
    case True
    then have few: "int (length (filter (\<lambda>u. t - rl_window L < u) h)) < rl_limit L"
      by (simp add: passes_iff lv)
    have "int (length (filter (\<lambda>u. x - rl_window L < u \<and> u \<le> x) (h @ [t]))) \<le> rl_limit L" for x
    proof (cases "t \<le> x")
      case True
      have "filter (\<lambda>u. x - rl_window L < u \<and> u \<le> x) h
          = filter (\<lambda>u. x - rl_window L < u \<and> u \<le> x) (filter (\<lambda>u. t - rl_window L < u) h)"
        using True by (auto simp: filter_filter intro!: filter_cong)
      then have "length (filter (\<lambda>u. x - rl_window L < u \<and> u \<le> x) h) \<le> length (filter (\<lambda>u. t - rl_window L < u) h)"
        by (metis length_filter_le)
      with few show ?thesis by simp
    next
      case False
      with old(3) show ?thesis by simp
    qed
    moreover have "deque ?L key = filter (\<lambda>u. t - rl_window ?L < u) (h @ [t])"
      using True w by (simp add: deque_check lv)
    moreover have "sorted (h @ [t])" using old by (simp add: sorted_append)
    ultimately show ?thesis using old True key by (auto simp: window_inv_def intro!: exI [of _ t])
  qed
qed

definition passed :: "string \<Rightarrow> (string \<times> rat \<times> bool) list \<Rightarrow> rat list" where
  "passed key trail = map (\<lambda>(k, t, ok). t) (filter (\<lambda>(k, t, ok). k = key \<and> ok) trail)"

lemma passed_simps [simp]:
  "passed key [] = []"
  "passed key ((k, t, ok) # trail) = (if k = key \<and> ok then t # passed key trail else passed key trail)"
  by (simp_all add: passed_def)

lemma run_checks_inv:
  assumes "window_inv L key c h" and "0 < rl_window L" and "sorted (c # map snd reqs)"
  shows "\<exists>c'. window_inv (snd (run_checks reqs L)) key c' (h @ passed key (fst (run_checks reqs L)))
    \<and> rl_limit (snd (run_checks reqs L)) = rl_limit L \<and> rl_window (snd (run_checks reqs L)) = rl_window L"
  using assms
proof (induction reqs arbitrary: L c h)
  case Nil
  then show ?case by auto
next
  case (Cons r reqs)
  obtain j t where r: "r = (j, t)" by (cases r)
  let ?L = "snd (check j t L)" and ?h = "if j = key \<and> passes j t L then h @ [t] else h"
  have "window_inv ?L key t ?h"
    using Cons.prems by (intro window_inv_check) (auto simp: r)
  from Cons.IH [OF this] Cons.prems show ?case
    by (auto simp: r split_beta Let_def split: if_splits)
qed

lemma window_inv_init:
  "make_limiter l w = Inr L \<Longrightarrow> window_inv L key c [] \<and> rl_limit L = l \<and> rl_window L = w \<and> 0 < w \<and> 1 \<le> l"
  by (auto simp: make_limiter_def window_inv_def deque_def split: if_splits)

section \<open>Properties of the limiter\<close>

text \<open>
  C23. The rate limit holds in every window: over any sequence of checks at non-decreasing times,
  for any keys, at most \<open>limit\<close> requests of a key pass in any interval of the window's length.
\<close>

theorem rate_limit_window:
  assumes "make_limiter l w = Inr L" and "sorted (map snd reqs)"
  shows "int (length (filter (\<lambda>t. x - w < t \<and> t \<le> x) (passed key (fst (run_checks reqs L))))) \<le> l"
proof -
  let ?c = "case reqs of [] \<Rightarrow> 0 | r # _ \<Rightarrow> snd r"
  note init = window_inv_init [OF assms(1), of key ?c]
  have "sorted (?c # map snd reqs)" using assms(2) by (cases reqs) auto
  with init obtain c' where
      "window_inv (snd (run_checks reqs L)) key c' ([] @ passed key (fst (run_checks reqs L)))"
      "rl_limit (snd (run_checks reqs L)) = l" "rl_window (snd (run_checks reqs L)) = w"
    using run_checks_inv [of L key ?c "[]" reqs] by auto
  then show ?thesis by (simp add: window_inv_def)
qed

definition sample_limiter :: limiter where
  "sample_limiter = \<lparr>rl_limit = 2, rl_window = 10, rl_requests = Map.empty\<rparr>"

theorem rate_limit_window_witness:
  "int (length (filter (\<lambda>t. 105 - 10 < t \<and> t \<le> 105) (passed ''c'' (fst (run_checks
     [(''c'', 100), (''c'', 101), (''d'', 101), (''c'', 102), (''c'', 111)] sample_limiter))))) \<le> 2"
  by (rule rate_limit_window) (simp_all add: make_limiter_def sample_limiter_def)

text \<open>
  What a decision means: a request passes exactly when fewer than \<open>limit\<close> recorded requests of
  its key are younger than the window; then it is recorded and \<open>remaining\<close> is what is left of the
  limit; otherwise nothing is recorded and \<open>retry_after\<close> is at least one second. Other keys are not
  touched, and a limiter that was built never raises.
\<close>

theorem check_spec:
  assumes "1 \<le> rl_limit L"
  shows "\<exists>d. fst (check key t L) = Inr d \<and> rd_limit d = rl_limit L
    \<and> rd_allowed d = (int (length (live key t L)) < rl_limit L)
    \<and> (rd_allowed d \<longrightarrow> rd_remaining d = rl_limit L - int (length (live key t L)) - 1 \<and> rd_retry_after d = 0)
    \<and> (\<not> rd_allowed d \<longrightarrow> rd_remaining d = 0 \<and> 1 \<le> rd_retry_after d \<and> rd_reset_after d = rd_retry_after d)
    \<and> 1 \<le> rd_reset_after d
    \<and> deque (snd (check key t L)) key = live key t L @ (if rd_allowed d then [t] else [])
    \<and> (\<forall>j. j \<noteq> key \<longrightarrow> deque (snd (check key t L)) j = deque L j)"
proof (cases "int (length (live key t L)) < rl_limit L")
  case True
  then show ?thesis using deque_check [of key t L] by (simp add: check_room passes_iff)
next
  case False
  with assms obtain oldest rest where "live key t L = oldest # rest" by (cases "live key t L") auto
  moreover from this False have "fst (check key t L) = Inr \<lparr>rd_allowed = False, rd_limit = rl_limit L,
      rd_remaining = 0, rd_retry_after = seconds_left oldest (rl_window L) t,
      rd_reset_after = seconds_left oldest (rl_window L) t\<rparr>"
    by (intro check_full) auto
  ultimately show ?thesis using False deque_check [of key t L] by (simp add: passes_iff)
qed

theorem check_spec_witness:
  "\<exists>d. fst (check ''c'' 100 sample_limiter) = Inr d \<and> rd_limit d = 2 \<and> rd_allowed d"
proof -
  have l: "1 \<le> rl_limit sample_limiter" by (simp add: sample_limiter_def)
  show ?thesis using check_spec [OF l, of "''c''" 100]
    by (auto simp: sample_limiter_def live_def deque_def)
qed

text \<open>
  C24. \<open>Retry-After\<close> is honest: a client that was turned away and waits at least the seconds it was
  told is let through, if no other request of its key came in between.
\<close>

theorem retry_after_honoured:
  assumes "window_inv L key c h" and "0 < rl_window L" and "c \<le> t"
    and "fst (check key t L) = Inr d" and "\<not> rd_allowed d" and "t + of_int (rd_retry_after d) \<le> t'"
  shows "passes key t' (snd (check key t L))"
proof -
  let ?L = "snd (check key t L)" and ?ts = "live key t L"
  note lv = window_inv_live [OF assms(1,3)]
  have denied: "\<not> passes key t L" using assms(4,5) by (simp add: passes_def)
  then have full: "rl_limit L \<le> int (length ?ts)" by (simp add: passes_iff)
  from assms(1,3) have old: "sorted h" "\<forall>u \<in> set h. u \<le> t"
      "int (length (filter (\<lambda>u. t - rl_window L < u \<and> u \<le> t) h)) \<le> rl_limit L"
    by (auto simp: window_inv_def)
  have "filter (\<lambda>u. t - rl_window L < u \<and> u \<le> t) h = ?ts"
    using old(2) by (auto simp: lv intro!: filter_cong)
  with old(3) full have len: "int (length ?ts) = rl_limit L" by simp
  have ne: "?ts \<noteq> []"
  proof
    assume none: "?ts = []"
    with full assms(4) show False by (simp add: check_def Let_def flip: live_def)
  qed
  then obtain oldest rest where ts: "?ts = oldest # rest" by (cases ?ts) auto
  have r: "rd_retry_after d = seconds_left oldest (rl_window L) t"
    using check_full [OF full ts] assms(4) by simp
  have "(of_int (rd_retry_after d) :: rat) \<ge> of_int \<lceil>oldest + rl_window L - t\<rceil>"
    unfolding r seconds_left_def by (simp only: of_int_le_iff max.cobounded2)
  moreover have "oldest + rl_window L - t \<le> of_int \<lceil>oldest + rl_window L - t\<rceil>"
    by (rule le_of_int_ceiling)
  ultimately have "of_int (rd_retry_after d) \<ge> oldest + rl_window L - t" by linarith
  with assms(6) have gone: "oldest \<le> t' - rl_window L" by linarith
  have "deque ?L key = oldest # rest" using denied ts by (simp add: deque_check)
  with gone have "length (live key t' ?L) \<le> length rest"
    by (simp add: live_def length_dropWhile_le)
  with len ts show ?thesis by (simp add: passes_iff)
qed

theorem retry_after_honoured_witness:
  "passes ''c'' 108 (snd (check ''c'' 100 (sample_limiter\<lparr>rl_limit := 1, rl_requests := [''c'' \<mapsto> [98]]\<rparr>)))"
proof (rule retry_after_honoured)
  let ?L = "sample_limiter\<lparr>rl_limit := 1, rl_requests := [''c'' \<mapsto> [98]]\<rparr>"
  show "window_inv ?L ''c'' 98 [98]"
    by (auto simp: window_inv_def sample_limiter_def deque_def intro!: exI [of _ 98])
  show "fst (check ''c'' 100 ?L) = Inr \<lparr>rd_allowed = False, rd_limit = 1, rd_remaining = 0, rd_retry_after = 8, rd_reset_after = 8\<rparr>"
    by (simp add: check_def sample_limiter_def deque_def seconds_left_def Let_def)
qed (simp_all add: sample_limiter_def)

section \<open>The middleware\<close>

definition is_rate_limit_exempt :: "string \<Rightarrow> bool" where
  "is_rate_limit_exempt path \<longleftrightarrow> path \<in> {''/health'', ''/metrics'', ''/openapi.json''}
     \<or> prefix ''/docs'' path \<or> prefix ''/redoc'' path"

record http_req =
  rq_path :: string
  rq_client :: "string option"
  rq_trace :: "string option"

definition rate_limit_key :: "http_req \<Rightarrow> string" where
  "rate_limit_key rq = (case rq_client rq of Some host \<Rightarrow> host | None \<Rightarrow> ''unknown'')"

text \<open>
  The state the middleware sees: the limiter in \<open>app.state\<close>, the rejections counted by path, and
  the state \<open>'s\<close> of the application behind it. \<open>tid\<close> is \<open>current_trace_id()\<close>, \<open>fresh\<close> the id drawn
  if there is none.
\<close>

record 's gate =
  gt_limiter :: limiter
  gt_rejections :: "string list"
  gt_app :: 's

definition limit_headers :: "decision \<Rightarrow> (string \<times> string) list" where
  "limit_headers d = [(''X-RateLimit-Limit'', str_int (rd_limit d)),
     (''X-RateLimit-Remaining'', str_int (rd_remaining d)), (''X-RateLimit-Reset'', str_int (rd_reset_after d))]"

definition too_many_requests :: "decision \<Rightarrow> string \<Rightarrow> http_resp" where
  "too_many_requests d trace_id =
     \<lparr>status_code = 429,
      headers = limit_headers d @ [(''Retry-After'', str_int (rd_retry_after d)), (''X-Trace-ID'', trace_id)],
      body = JObj [(''error'', JObj [(''code'', JStr ''RATE_LIMIT_EXCEEDED''),
        (''message'', JStr ''Too many requests; retry after the indicated delay''),
        (''traceId'', JStr trace_id), (''retryable'', JBool True),
        (''details'', JObj [(''retryAfterSeconds'', JNum (of_int (rd_retry_after d)))])])]\<rparr>"

definition rate_limit_middleware ::
  "bool \<Rightarrow> string \<Rightarrow> string \<Rightarrow> rat \<Rightarrow> http_req \<Rightarrow> ('s \<Rightarrow> (exn + http_resp) \<times> 's) \<Rightarrow> 's gate
    \<Rightarrow> (exn + http_resp) \<times> 's gate" where
  "rate_limit_middleware enabled tid fresh t rq call_next g =
     (if \<not> enabled \<or> is_rate_limit_exempt (rq_path rq) then
        (let (r, a) = call_next (gt_app g) in (r, g\<lparr>gt_app := a\<rparr>))
      else (case check (rate_limit_key rq) t (gt_limiter g) of
        (Inl e, L) \<Rightarrow> (Inl e, g\<lparr>gt_limiter := L\<rparr>)
      | (Inr d, L) \<Rightarrow>
          if \<not> rd_allowed d then
            (let trace_id = (if tid = ''-'' then normalize_trace_id fresh (rq_trace rq) else tid) in
             (Inr (too_many_requests d trace_id),
              g\<lparr>gt_limiter := L, gt_rejections := gt_rejections g @ [rq_path rq]\<rparr>))
          else (case call_next (gt_app g) of
            (Inl e, a) \<Rightarrow> (Inl e, g\<lparr>gt_limiter := L, gt_app := a\<rparr>)
          | (Inr r, a) \<Rightarrow> (Inr (foldl (\<lambda>r (n, v). add_header n v r) r (limit_headers d)),
              g\<lparr>gt_limiter := L, gt_app := a\<rparr>))))"

lemma foldl_limit_headers [simp]:
  "status_code (foldl (\<lambda>r (n, v). add_header n v r) r (limit_headers d)) = status_code r"
  "body (foldl (\<lambda>r (n, v). add_header n v r) r (limit_headers d)) = body r"
  "header ''X-RateLimit-Remaining'' (foldl (\<lambda>r (n, v). add_header n v r) r (limit_headers d))
    = Some (str_int (rd_remaining d))"
  by (simp_all add: limit_headers_def)

lemma too_many_requests_sel [simp]:
  "status_code (too_many_requests d tid) = 429"
  "header ''Retry-After'' (too_many_requests d tid) = Some (str_int (rd_retry_after d))"
  by (simp_all add: too_many_requests_def limit_headers_def header_def)

text \<open>
  The middleware protects the application: with limiting on, a request on a path that is not
  exempt is answered 429 exactly when its client is over the limit; then the application is not
  called, the rejection is counted and the answer names the wait in \<open>Retry-After\<close>; otherwise the
  application's answer goes out with its status and body and the remaining allowance. Exempt paths
  never touch the limiter.
\<close>

theorem rate_limit_middleware_spec:
  assumes "1 \<le> rl_limit (gt_limiter g)" and "call_next (gt_app g) = (Inr r, a)"
  shows "if \<not> enabled \<or> is_rate_limit_exempt (rq_path rq) then
       rate_limit_middleware enabled tid fresh t rq call_next g = (Inr r, g\<lparr>gt_app := a\<rparr>)
     else if passes (rate_limit_key rq) t (gt_limiter g) then
       (\<exists>r' g'. rate_limit_middleware enabled tid fresh t rq call_next g = (Inr r', g')
          \<and> status_code r' = status_code r \<and> body r' = body r \<and> gt_app g' = a
          \<and> gt_rejections g' = gt_rejections g
          \<and> header ''X-RateLimit-Remaining'' r' = Some (str_int (rl_limit (gt_limiter g)
              - int (length (live (rate_limit_key rq) t (gt_limiter g))) - 1)))
     else
       (\<exists>r' g' n. rate_limit_middleware enabled tid fresh t rq call_next g = (Inr r', g')
          \<and> status_code r' = 429 \<and> 1 \<le> n \<and> header ''Retry-After'' r' = Some (str_int n)
          \<and> gt_app g' = gt_app g \<and> gt_rejections g' = gt_rejections g @ [rq_path rq])"
proof -
  let ?k = "rate_limit_key rq"
  obtain d where d: "fst (check ?k t (gt_limiter g)) = Inr d"
    and lims: "rd_allowed d = passes ?k t (gt_limiter g)"
      "rd_allowed d \<Longrightarrow> rd_remaining d = rl_limit (gt_limiter g) - int (length (live ?k t (gt_limiter g))) - 1"
      "\<not> rd_allowed d \<Longrightarrow> 1 \<le> rd_retry_after d"
  proof (cases "passes ?k t (gt_limiter g)")
    case True
    then show thesis using that check_room [of ?k t "gt_limiter g"] by (simp add: passes_iff)
  next
    case False
    then have full: "rl_limit (gt_limiter g) \<le> int (length (live ?k t (gt_limiter g)))" by (simp add: passes_iff)
    with assms(1) obtain o' rest where "live ?k t (gt_limiter g) = o' # rest"
      by (cases "live ?k t (gt_limiter g)") auto
    with False that check_full [OF full this] show thesis by simp
  qed
  obtain L where "check ?k t (gt_limiter g) = (Inr d, L)" using d by (cases "check ?k t (gt_limiter g)") auto
  with assms(2) lims show ?thesis
    by (auto simp: rate_limit_middleware_def Let_def)
qed

theorem rate_limit_middleware_spec_witness:
  "\<exists>r' g' n. rate_limit_middleware True ''t'' ''f'' 100
       \<lparr>rq_path = ''/events'', rq_client = Some ''c'', rq_trace = None\<rparr> (\<lambda>a. (Inr (json_response 200 JNull), a))
       \<lparr>gt_limiter = sample_limiter\<lparr>rl_requests := [''c'' \<mapsto> [98, 99]]\<rparr>, gt_rejections = [], gt_app = ()\<rparr> = (Inr r', g')
     \<and> status_code r' = 429 \<and> 1 \<le> n \<and> header ''Retry-After'' r' = Some (str_int n)"
  using rate_limit_middleware_spec [of "\<lparr>gt_limiter = sample_limiter\<lparr>rl_requests := [''c'' \<mapsto> [98, 99]]\<rparr>,
      gt_rejections = [], gt_app = ()\<rparr>" "\<lambda>a. (Inr (json_response 200 JNull), a)" "json_response 200 JNull" "()"
      True "\<lparr>rq_path = ''/events'', rq_client = Some ''c'', rq_trace = None\<rparr>" "''t''" "''f''" 100]
  by (simp add: sample_limiter_def passes_iff live_def deque_def rate_limit_key_def is_rate_limit_exempt_def) blast

end
