(* ===== verification/Client.thy ===== *)
theory Client
  imports Schemas
begin

text \<open>
  The gateway's client of the account service (\<open>event-gateway/app/clients/account_service.py\<close>): the
  circuit breaker, and the retry loop of \<open>_request\<close>. The network is a function of a state \<open>'s\<close>:
  each attempt sends one request and gets a response or an exception of the HTTP library. The
  readings of \<open>time.monotonic()\<close> are given by \<open>clk\<close>, the \<open>k\<close>-th reading of one call, and the jitter
  of the \<open>k\<close>-th sleep by \<open>jit\<close>.
\<close>

section \<open>Settings\<close>

record settings =
  st_max_attempts :: int
  st_failure_threshold :: int
  st_recovery_seconds :: rat
  st_rate_limit_enabled :: bool
  st_rate_limit_requests :: int
  st_rate_limit_window :: rat
  st_fallback_enabled :: bool
  st_poll_seconds :: rat
  st_batch_size :: int
  st_base_backoff :: rat
  st_max_backoff :: rat
  st_jitter :: rat

definition default_settings :: settings where
  "default_settings = \<lparr>st_max_attempts = 3, st_failure_threshold = 5, st_recovery_seconds = 30,
     st_rate_limit_enabled = True, st_rate_limit_requests = 120, st_rate_limit_window = 60,
     st_fallback_enabled = True, st_poll_seconds = 1, st_batch_size = 25, st_base_backoff = 1,
     st_max_backoff = 60, st_jitter = 1 / 4\<rparr>"

lemma default_settings_sel [simp]:
  "st_max_attempts default_settings = 3" "st_failure_threshold default_settings = 5"
  "st_recovery_seconds default_settings = 30" "st_rate_limit_enabled default_settings"
  "st_rate_limit_requests default_settings = 120" "st_rate_limit_window default_settings = 60"
  "st_fallback_enabled default_settings" "st_poll_seconds default_settings = 1"
  "st_batch_size default_settings = 25" "st_base_backoff default_settings = 1"
  "st_max_backoff default_settings = 60" "st_jitter default_settings = 1 / 4"
  by (simp_all add: default_settings_def)

section \<open>The circuit breaker\<close>

record breaker =
  failure_threshold :: int
  recovery_seconds :: rat
  failures :: int
  opened_at :: "rat option"

definition new_breaker :: "settings \<Rightarrow> breaker" where
  "new_breaker st = \<lparr>failure_threshold = st_failure_threshold st,
     recovery_seconds = st_recovery_seconds st, failures = 0, opened_at = None\<rparr>"

text \<open>\<open>allow\<close> returns or raises \<open>CircuitOpen\<close>.\<close>

definition allow :: "rat \<Rightarrow> breaker \<Rightarrow> bool" where
  "allow t b = (case opened_at b of None \<Rightarrow> True | Some t0 \<Rightarrow> recovery_seconds b \<le> t - t0)"

definition success :: "breaker \<Rightarrow> breaker" where
  "success b = b\<lparr>failures := 0, opened_at := None\<rparr>"

definition failure :: "rat \<Rightarrow> breaker \<Rightarrow> breaker" where
  "failure t b = (let b' = b\<lparr>failures := failures b + 1\<rparr> in
     if failure_threshold b' \<le> failures b' then b'\<lparr>opened_at := Some t\<rparr> else b')"

section \<open>Requests\<close>

record request_line =
  rl_method :: string
  rl_path :: string
  rl_trace :: string
  rl_json :: "payload option"

text \<open>A response: its status, whether its content type starts with \<open>application/json\<close>, the text, and
  what \<open>response.json()\<close> gives (\<open>None\<close> when the text is not JSON).\<close>

record response =
  rs_status :: int
  rs_is_json :: bool
  rs_text :: string
  rs_json :: "json option"

text \<open>
  One attempt: a response, the exceptions the loop catches (\<open>TimeoutException\<close>, \<open>ConnectError\<close>) with
  their texts, or any other exception, which it does not.
\<close>

datatype attempt_outcome =
    Response response
  | TimeoutException string
  | ConnectError string
  | OtherFailure string

text \<open>A call: a response, \<open>AccountServiceUnavailable\<close> (\<open>CircuitOpen\<close> included), or the exception.\<close>

datatype call_result =
    Got response
  | Unavailable string
  | Crashed string

definition transient :: "int \<Rightarrow> bool" where
  "transient s \<longleftrightarrow> s \<in> {502, 503, 504}"

text \<open>What an attempt comes to: done, or a failure with the text of the exception to remember.\<close>

datatype verdict_of_attempt = Done call_result | Retry string

fun classify :: "attempt_outcome \<Rightarrow> verdict_of_attempt" where
  "classify (Response r) = (if transient (rs_status r) then Retry ''transient downstream error'' else Done (Got r))"
| "classify (TimeoutException m) = Retry m"
| "classify (ConnectError m) = Retry m"
| "classify (OtherFailure m) = Done (Crashed m)"

definition sleep_seconds :: "nat \<Rightarrow> rat \<Rightarrow> rat" where
  "sleep_seconds attempt jitter = (1 / 20) * 2 ^ attempt + jitter"

text \<open>The state of a call: the breaker, the network, the seconds slept so far.\<close>

record 's call =
  cl_breaker :: breaker
  cl_net :: 's
  cl_sleeps :: "rat list"

text \<open>
  One turn of the loop: attempt \<open>k\<close>, with \<open>n\<close> more attempts after it. It ends the call, or it sleeps and the
  text of the exception is remembered.
\<close>

definition attempt ::
  "(request_line \<Rightarrow> 's \<Rightarrow> attempt_outcome \<times> 's) \<Rightarrow> (nat \<Rightarrow> rat) \<Rightarrow> (nat \<Rightarrow> rat) \<Rightarrow> request_line
    \<Rightarrow> nat \<Rightarrow> nat \<Rightarrow> 's call \<Rightarrow> (call_result + string) \<times> 's call" where
  "attempt send clk jit rq n k c =
     (let (out, net') = send rq (cl_net c); c1 = c\<lparr>cl_net := net'\<rparr> in
      case classify out of
        Done (Got r) \<Rightarrow> (Inl (Got r), c1\<lparr>cl_breaker := success (cl_breaker c1)\<rparr>)
      | Done res \<Rightarrow> (Inl res, c1)
      | Retry m \<Rightarrow>
          (let c2 = c1\<lparr>cl_breaker := failure (clk (Suc k)) (cl_breaker c1)\<rparr> in
           if n = 0 then (Inl (Unavailable m), c2)
           else (Inr m, c2\<lparr>cl_sleeps := cl_sleeps c2 @ [sleep_seconds k (jit k)]\<rparr>)))"

text \<open>
  The loop from attempt \<open>k\<close> with \<open>n\<close> attempts left; \<open>last_error\<close> is the text of the last exception.
\<close>

fun attempts ::
  "(request_line \<Rightarrow> 's \<Rightarrow> attempt_outcome \<times> 's) \<Rightarrow> (nat \<Rightarrow> rat) \<Rightarrow> (nat \<Rightarrow> rat) \<Rightarrow> request_line
    \<Rightarrow> nat \<Rightarrow> nat \<Rightarrow> string \<Rightarrow> 's call \<Rightarrow> call_result \<times> 's call" where
  "attempts send clk jit rq 0 k last_error c = (Unavailable last_error, c)"
| "attempts send clk jit rq (Suc n) k last_error c =
     (case attempt send clk jit rq n k c of
        (Inl res, c') \<Rightarrow> (res, c')
      | (Inr m, c') \<Rightarrow> attempts send clk jit rq n (Suc k) m c')"

text \<open>How far a call has come: not begun, or its number, the attempts left, the next attempt, the last error.\<close>

datatype progress = NotBegun | Trying nat nat nat string

definition request_call ::
  "settings \<Rightarrow> (request_line \<Rightarrow> 's \<Rightarrow> attempt_outcome \<times> 's) \<Rightarrow> (nat \<Rightarrow> rat) \<Rightarrow> (nat \<Rightarrow> rat) \<Rightarrow> request_line
    \<Rightarrow> 's call \<Rightarrow> call_result \<times> 's call" where
  "request_call st send clk jit rq c =
     (if \<not> allow (clk 0) (cl_breaker c) then (Unavailable ''account service circuit is open'', c)
      else attempts send clk jit rq (nat (st_max_attempts st)) 0 ''None'' c)"

definition transaction_path :: "string \<Rightarrow> string" where
  "transaction_path account_id = ''/accounts/'' @ account_id @ ''/transactions''"

definition balance_path :: "string \<Rightarrow> string" where
  "balance_path account_id = ''/accounts/'' @ account_id @ ''/balance''"

definition client_apply_transaction ::
  "settings \<Rightarrow> (request_line \<Rightarrow> 's \<Rightarrow> attempt_outcome \<times> 's) \<Rightarrow> (nat \<Rightarrow> rat) \<Rightarrow> (nat \<Rightarrow> rat) \<Rightarrow> string \<Rightarrow> payload
    \<Rightarrow> 's call \<Rightarrow> call_result \<times> 's call" where
  "client_apply_transaction st send clk jit tid p c =
     request_call st send clk jit
       \<lparr>rl_method = ''POST'', rl_path = transaction_path (pl_account_id p), rl_trace = tid, rl_json = Some p\<rparr> c"

definition client_get_balance ::
  "settings \<Rightarrow> (request_line \<Rightarrow> 's \<Rightarrow> attempt_outcome \<times> 's) \<Rightarrow> (nat \<Rightarrow> rat) \<Rightarrow> (nat \<Rightarrow> rat) \<Rightarrow> string \<Rightarrow> string
    \<Rightarrow> 's call \<Rightarrow> call_result \<times> 's call" where
  "client_get_balance st send clk jit tid account_id c =
     request_call st send clk jit
       \<lparr>rl_method = ''GET'', rl_path = balance_path account_id, rl_trace = tid, rl_json = None\<rparr> c"

section \<open>Reference view of a call\<close>

text \<open>
  The outcomes of \<open>n\<close> successive sends, and what the breaker makes of the outcomes of one call:
  attempt \<open>k\<close> (from 0) reads the clock at \<open>clk (Suc k)\<close> when it fails.
\<close>

fun sends :: "(request_line \<Rightarrow> 's \<Rightarrow> attempt_outcome \<times> 's) \<Rightarrow> request_line \<Rightarrow> nat \<Rightarrow> 's
    \<Rightarrow> attempt_outcome list \<times> 's" where
  "sends send rq 0 s = ([], s)"
| "sends send rq (Suc n) s =
     (let (out, s') = send rq s; (outs, s'') = sends send rq n s' in (out # outs, s''))"

fun is_retry :: "attempt_outcome \<Rightarrow> bool" where
  "is_retry (Response r) = transient (rs_status r)"
| "is_retry (TimeoutException m) = True"
| "is_retry (ConnectError m) = True"
| "is_retry (OtherFailure m) = False"

definition settled :: "attempt_outcome \<Rightarrow> call_result" where
  "settled out = (case classify out of Done res \<Rightarrow> res | Retry m \<Rightarrow> Unavailable m)"

definition note_outcome :: "rat \<Rightarrow> attempt_outcome \<Rightarrow> breaker \<Rightarrow> breaker" where
  "note_outcome t out b = (case out of
     Response r \<Rightarrow> if transient (rs_status r) then failure t b else success b
   | TimeoutException m \<Rightarrow> failure t b
   | ConnectError m \<Rightarrow> failure t b
   | OtherFailure m \<Rightarrow> b)"

fun note_outcomes :: "(nat \<Rightarrow> rat) \<Rightarrow> nat \<Rightarrow> attempt_outcome list \<Rightarrow> breaker \<Rightarrow> breaker" where
  "note_outcomes clk k [] b = b"
| "note_outcomes clk k (out # outs) b = note_outcomes clk (Suc k) outs (note_outcome (clk (Suc k)) out b)"

lemma is_retry_classify: "is_retry out \<longleftrightarrow> (\<exists>m. classify out = Retry m)"
  by (cases out) auto

lemma classify_Got: "classify out = Done (Got r) \<longleftrightarrow> out = Response r \<and> \<not> transient (rs_status r)"
  by (cases out) auto

text \<open>One attempt: the call ends with \<open>settled\<close>, or sleeps and goes on.\<close>

lemma attempts_Suc:
  assumes "send rq (cl_net c) = (out, s')"
  shows "attempts send clk jit rq (Suc n) k m0 c =
    (if is_retry out \<and> n \<noteq> 0
     then attempts send clk jit rq n (Suc k) (case classify out of Retry m \<Rightarrow> m | _ \<Rightarrow> m0)
       (c\<lparr>cl_net := s', cl_breaker := note_outcome (clk (Suc k)) out (cl_breaker c),
          cl_sleeps := cl_sleeps c @ [sleep_seconds k (jit k)]\<rparr>)
     else (settled out, c\<lparr>cl_net := s', cl_breaker := note_outcome (clk (Suc k)) out (cl_breaker c)\<rparr>))"
  using assms by (cases out) (auto simp: attempt_def Let_def settled_def note_outcome_def)

lemma attempt_step:
  assumes "send rq (cl_net c) = (out, s')"
  shows "attempt send clk jit rq n k c =
    (let c1 = c\<lparr>cl_net := s', cl_breaker := note_outcome (clk (Suc k)) out (cl_breaker c)\<rparr> in
     if is_retry out \<and> n \<noteq> 0
     then (Inr (case classify out of Retry m \<Rightarrow> m | _ \<Rightarrow> []), c1\<lparr>cl_sleeps := cl_sleeps c @ [sleep_seconds k (jit k)]\<rparr>)
     else (Inl (settled out), c1))"
  using assms by (cases out) (auto simp: attempt_def Let_def settled_def note_outcome_def)

lemma attempts_trace:
  assumes "attempts send clk jit rq n k m0 c = (res, c')"
  shows "\<exists>outs. sends send rq (length outs) (cl_net c) = (outs, cl_net c') \<and> length outs \<le> n
    \<and> list_all is_retry (butlast outs)
    \<and> (if n = 0 then outs = [] \<and> res = Unavailable m0
       else outs \<noteq> [] \<and> res = settled (last outs) \<and> (is_retry (last outs) \<longrightarrow> length outs = n))
    \<and> cl_sleeps c' = cl_sleeps c @ map (\<lambda>i. sleep_seconds i (jit i)) [k..<k + length outs - 1]
    \<and> cl_breaker c' = note_outcomes clk k outs (cl_breaker c)"
  using assms
proof (induction n arbitrary: k m0 c)
  case 0
  then show ?case by (intro exI [of _ "[]"]) auto
next
  case (Suc n)
  obtain out s' where snd: "send rq (cl_net c) = (out, s')" by fastforce
  note eq = attempts_Suc [where send = send and rq = rq and c = c and out = out and s' = s' and n = n
      and clk = clk and jit = jit and k = k and ?m0.0 = m0, OF snd]
  show ?case
  proof (cases "is_retry out \<and> n \<noteq> 0")
    case False
    with Suc.prems eq have "res = settled out"
      "c' = c\<lparr>cl_net := s', cl_breaker := note_outcome (clk (Suc k)) out (cl_breaker c)\<rparr>"
      by auto
    with False snd show ?thesis by (intro exI [of _ "[out]"]) auto
  next
    case True
    let ?c = "c\<lparr>cl_net := s', cl_breaker := note_outcome (clk (Suc k)) out (cl_breaker c),
      cl_sleeps := cl_sleeps c @ [sleep_seconds k (jit k)]\<rparr>"
    from True Suc.prems eq have
      "attempts send clk jit rq n (Suc k) (case classify out of Retry m \<Rightarrow> m | _ \<Rightarrow> m0) ?c = (res, c')"
      by auto
    from Suc.IH [OF this] True obtain outs where outs: "outs \<noteq> []"
      "sends send rq (length outs) s' = (outs, cl_net c')" "length outs \<le> n"
      "list_all is_retry (butlast outs)" "res = settled (last outs)"
      "is_retry (last outs) \<longrightarrow> length outs = n"
      "cl_sleeps c' = cl_sleeps c @ sleep_seconds k (jit k)
         # map (\<lambda>i. sleep_seconds i (jit i)) [Suc k..<Suc k + length outs - 1]"
      "cl_breaker c' = note_outcomes clk (Suc k) outs (note_outcome (clk (Suc k)) out (cl_breaker c))"
      by auto
    have "[k..<k + length (out # outs) - 1] = k # [Suc k..<Suc k + length outs - 1]"
      using outs(1) by (cases outs) (auto simp: upt_rec [of k] Suc_le_eq)
    with outs snd True show ?thesis by (intro exI [of _ "out # outs"]) auto
  qed
qed

section \<open>Properties of the retry loop\<close>

text \<open>
  C20. A call that the breaker lets through sends the same request between once and
  \<open>max_attempts\<close> times. It stops at the first outcome that is not a time-out, a connection error
  or a 502, 503 or 504, and that outcome is its result: a 4xx or 2xx answer is handed to the caller
  after one success of the breaker, another exception propagates. Only when all \<open>max_attempts\<close> sends
  failed is the account service reported unavailable. Between two sends it sleeps
  \<open>0.05 * 2 ^ attempt\<close> seconds plus the jitter, and never after the last one.
\<close>

theorem request_call_spec:
  assumes "allow (clk 0) (cl_breaker c)" and "0 < st_max_attempts st"
    and "request_call st send clk jit rq c = (res, c')"
  shows "\<exists>outs. outs \<noteq> [] \<and> sends send rq (length outs) (cl_net c) = (outs, cl_net c')
    \<and> int (length outs) \<le> st_max_attempts st
    \<and> (\<forall>out \<in> set (butlast outs). is_retry out)
    \<and> res = settled (last outs)
    \<and> (is_retry (last outs) \<longrightarrow> int (length outs) = st_max_attempts st)
    \<and> cl_sleeps c' = cl_sleeps c @ map (\<lambda>i. 1 / 20 * 2 ^ i + jit i) [0..<length outs - 1]
    \<and> cl_breaker c' = note_outcomes clk 0 outs (cl_breaker c)"
proof -
  from assms have "attempts send clk jit rq (nat (st_max_attempts st)) 0 ''None'' c = (res, c')"
    by (simp add: request_call_def)
  from attempts_trace [OF this] assms(2) obtain outs where
    "sends send rq (length outs) (cl_net c) = (outs, cl_net c')" "length outs \<le> nat (st_max_attempts st)"
    "list_all is_retry (butlast outs)" "outs \<noteq> []" "res = settled (last outs)"
    "is_retry (last outs) \<longrightarrow> length outs = nat (st_max_attempts st)"
    "cl_sleeps c' = cl_sleeps c @ map (\<lambda>i. sleep_seconds i (jit i)) [0..<length outs - 1]"
    "cl_breaker c' = note_outcomes clk 0 outs (cl_breaker c)"
    by auto
  with assms(2) show ?thesis
    by (intro exI [of _ outs]) (auto simp: list_all_iff sleep_seconds_def le_nat_iff)
qed

text \<open>A network for the witnesses: it plays a list of outcomes, and time-outs after its end.\<close>

definition script :: "request_line \<Rightarrow> attempt_outcome list \<Rightarrow> attempt_outcome \<times> attempt_outcome list" where
  "script rq s = (case s of [] \<Rightarrow> (TimeoutException ''timeout'', []) | out # s' \<Rightarrow> (out, s'))"

definition answer :: "int \<Rightarrow> response" where
  "answer code = \<lparr>rs_status = code, rs_is_json = False, rs_text = [], rs_json = None\<rparr>"

definition sample_line :: request_line where
  "sample_line = \<lparr>rl_method = ''GET'', rl_path = balance_path ''acct-1'', rl_trace = ''t'', rl_json = None\<rparr>"

definition fresh_call :: "settings \<Rightarrow> attempt_outcome list \<Rightarrow> attempt_outcome list call" where
  "fresh_call st s = \<lparr>cl_breaker = new_breaker st, cl_net = s, cl_sleeps = []\<rparr>"

lemma sample_retry:
  "request_call default_settings script of_nat (\<lambda>_. 0) sample_line
     (fresh_call default_settings [Response (answer 503), Response (answer 404), Response (answer 200)])
   = (Got (answer 404), (fresh_call default_settings [Response (answer 200)])\<lparr>cl_sleeps := [1 / 20]\<rparr>)"
  by (simp add: request_call_def default_settings_def fresh_call_def new_breaker_def allow_def script_def
      answer_def transient_def failure_def success_def sleep_seconds_def Let_def eval_nat_numeral attempt_def)

theorem request_call_spec_witness:
  "allow (of_nat 0) (new_breaker default_settings) \<and> 0 < st_max_attempts default_settings
    \<and> (\<exists>outs. outs \<noteq> [] \<and> int (length outs) \<le> 3 \<and> Got (answer 404) = settled (last outs))"
proof -
  have 1: "allow (of_nat 0) (cl_breaker (fresh_call default_settings
      [Response (answer 503), Response (answer 404), Response (answer 200)]))"
    by (simp add: fresh_call_def allow_def new_breaker_def)
  have 2: "0 < st_max_attempts default_settings" by (simp add: default_settings_def)
  from request_call_spec [OF 1 2 sample_retry]
  have "\<exists>outs. outs \<noteq> [] \<and> int (length outs) \<le> st_max_attempts default_settings
    \<and> Got (answer 404) = settled (last outs)" by blast
  with 1 2 show ?thesis by (simp add: default_settings_def fresh_call_def)
qed

section \<open>Properties of the circuit breaker\<close>

text \<open>
  The breaker after a history of timed outcomes, and the failures it counts: those after the last
  answer of the account service that was not a 502, 503 or 504. Newest first.
\<close>

definition breaker_run :: "(rat \<times> attempt_outcome) list \<Rightarrow> breaker \<Rightarrow> breaker" where
  "breaker_run h b = fold (\<lambda>(t, out). note_outcome t out) h b"

fun answered :: "attempt_outcome \<Rightarrow> bool" where
  "answered (Response r) = (\<not> transient (rs_status r))"
| "answered _ = False"

definition recent_failures :: "(rat \<times> attempt_outcome) list \<Rightarrow> (rat \<times> attempt_outcome) list" where
  "recent_failures h = filter (\<lambda>(t, out). is_retry out) (takeWhile (\<lambda>(t, out). \<not> answered out) (rev h))"

lemma note_outcome_cases:
  "note_outcome t out b = (if is_retry out then failure t b else if answered out then success b else b)"
  by (cases out) (auto simp: note_outcome_def)

lemma breaker_sel [simp]:
  "failure_threshold (success b) = failure_threshold b" "recovery_seconds (success b) = recovery_seconds b"
  "failures (success b) = 0" "opened_at (success b) = None"
  "failure_threshold (failure t b) = failure_threshold b" "recovery_seconds (failure t b) = recovery_seconds b"
  "failures (failure t b) = failures b + 1"
  "opened_at (failure t b) = (if failure_threshold b \<le> failures b + 1 then Some t else opened_at b)"
  by (simp_all add: success_def failure_def Let_def)

lemma note_outcome_settings [simp]:
  "failure_threshold (note_outcome t out b) = failure_threshold b"
  "recovery_seconds (note_outcome t out b) = recovery_seconds b"
  by (simp_all add: note_outcome_cases)

lemma recent_failures_snoc:
  "recent_failures (h @ [(t, out)]) =
     (if is_retry out then (t, out) # recent_failures h else if answered out then [] else recent_failures h)"
  by (cases out) (auto simp: recent_failures_def)

lemma breaker_run_snoc: "breaker_run (h @ [(t, out)]) b = note_outcome t out (breaker_run h b)"
  by (simp add: breaker_run_def)

lemma breaker_run_history:
  assumes "0 < st_failure_threshold st"
  shows "breaker_run h (new_breaker st) = \<lparr>failure_threshold = st_failure_threshold st,
    recovery_seconds = st_recovery_seconds st, failures = int (length (recent_failures h)),
    opened_at = (if st_failure_threshold st \<le> int (length (recent_failures h))
      then Some (fst (hd (recent_failures h))) else None)\<rparr>"
  using assms
proof (induction h rule: rev_induct)
  case Nil
  then show ?case by (simp add: breaker_run_def recent_failures_def new_breaker_def)
next
  case (snoc x h)
  obtain t out where "x = (t, out)" by fastforce
  with snoc show ?case
    by (auto simp: breaker_run_snoc recent_failures_snoc note_outcome_cases success_def failure_def Let_def)
qed

text \<open>
  C21. After any history of outcomes, the breaker lets a call through exactly when fewer than
  \<open>failure_threshold\<close> failures were counted since the last proper answer, or the last of them is
  at least \<open>recovery_seconds\<close> old. An exception that is neither a time-out nor a connection error
  counts neither as a failure nor as an answer.
\<close>

theorem breaker_exact:
  assumes "0 < st_failure_threshold st"
  shows "allow t (breaker_run h (new_breaker st)) \<longleftrightarrow>
    int (length (recent_failures h)) < st_failure_threshold st
    \<or> fst (hd (recent_failures h)) + st_recovery_seconds st \<le> t"
  using assms by (auto simp: breaker_run_history allow_def)

theorem breaker_exact_witness:
  "\<not> allow 33 (breaker_run [(0, TimeoutException ''timeout''), (1, ConnectError ''refused''),
      (2, TimeoutException ''timeout''), (3, OtherFailure ''reset''), (4, Response (answer 503)),
      (5, ConnectError ''refused'')] (new_breaker default_settings))"
  by (subst breaker_exact) (simp_all add: recent_failures_def answer_def transient_def)

lemma note_outcomes_failing:
  assumes "list_all is_retry outs" and "outs \<noteq> []"
  shows "failures (note_outcomes clk k outs b) = failures b + int (length outs)
    \<and> failure_threshold (note_outcomes clk k outs b) = failure_threshold b
    \<and> recovery_seconds (note_outcomes clk k outs b) = recovery_seconds b
    \<and> (failure_threshold b \<le> failures b + int (length outs)
         \<longrightarrow> opened_at (note_outcomes clk k outs b) = Some (clk (k + length outs)))"
  using assms
proof (induction outs arbitrary: k b)
  case Nil
  then show ?case by simp
next
  case (Cons out outs)
  show ?case
  proof (cases "outs = []")
    case True
    with Cons.prems show ?thesis by (simp add: note_outcome_cases)
  next
    case False
    with Cons.prems have "list_all is_retry outs" by simp
    note IH = Cons.IH [OF this False, where k = "Suc k" and b = "note_outcome (clk (Suc k)) out b"]
    with Cons.prems show ?thesis by (simp add: note_outcome_cases)
  qed
qed

text \<open>
  C22. When a call fails on every attempt and this brings the count of failures to the threshold (a
  trial call after the recovery time included), every call that starts less than
  \<open>recovery_seconds\<close> after its last failure is refused at once: nothing is sent, and neither the
  breaker nor the network changes.
\<close>

theorem outage_opens_circuit:
  assumes "allow (clk 0) (cl_breaker c)" and "0 < st_max_attempts st"
    and "request_call st send clk jit rq c = (Unavailable m, c')"
    and "failure_threshold (cl_breaker c) \<le> failures (cl_breaker c) + st_max_attempts st"
    and "clk' 0 < clk (nat (st_max_attempts st)) + recovery_seconds (cl_breaker c)"
  shows "request_call st send clk' jit' rq' c' = (Unavailable ''account service circuit is open'', c')"
proof -
  from assms(1-3) have "attempts send clk jit rq (nat (st_max_attempts st)) 0 ''None'' c = (Unavailable m, c')"
    by (simp add: request_call_def)
  from attempts_trace [OF this] assms(2) obtain outs where outs: "outs \<noteq> []"
    "list_all is_retry (butlast outs)" "Unavailable m = settled (last outs)"
    "is_retry (last outs) \<longrightarrow> length outs = nat (st_max_attempts st)"
    "cl_breaker c' = note_outcomes clk 0 outs (cl_breaker c)"
    by auto
  from outs(3) have "is_retry (last outs)" by (cases "last outs") (auto simp: settled_def split: if_splits)
  moreover from this outs(1,2) have "list_all is_retry outs"
    by (metis append_butlast_last_id list_all_append list.pred_inject(1) list.pred_inject(2))
  ultimately show ?thesis
    using note_outcomes_failing [OF _ outs(1), of clk 0 "cl_breaker c"] outs(4,5) assms(2,4,5)
    by (simp add: request_call_def allow_def)
qed

theorem outage_opens_circuit_witness:
  "let st = default_settings\<lparr>st_failure_threshold := 3\<rparr>;
       c' = snd (request_call st script of_nat (\<lambda>_. 0) sample_line (fresh_call st []))
   in request_call st script (\<lambda>_. 20) (\<lambda>_. 0) sample_line c'
        = (Unavailable ''account service circuit is open'', c')"
proof -
  let ?st = "default_settings\<lparr>st_failure_threshold := 3\<rparr>"
  obtain c' where eq: "request_call ?st script of_nat (\<lambda>_. 0) sample_line (fresh_call ?st []) =
      (Unavailable ''timeout'', c')"
    by (simp add: attempt_def request_call_def default_settings_def fresh_call_def new_breaker_def allow_def script_def
      Let_def eval_nat_numeral)
  have "request_call ?st script (\<lambda>_. 20) (\<lambda>_. 0) sample_line c'
      = (Unavailable ''account service circuit is open'', c')"
    by (rule outage_opens_circuit [OF _ _ eq])
      (simp_all add: default_settings_def fresh_call_def new_breaker_def allow_def)
  with eq show ?thesis by (simp add: Let_def)
qed

end
