(* ===== verification/Observability.thy ===== *)
theory Observability
  imports RateLimit Client
begin

text \<open>
  What both services set up around their requests: the settings they read at start-up
  (\<open>core/config.py\<close>), the connection arguments of \<open>db/session.py\<close>, tracing export
  (\<open>core/telemetry.py\<close>), JSON log lines (\<open>core/logging.py\<close>), and the start and stop of
  the background worker (\<open>main.py\<close>). What the OpenTelemetry libraries are told is kept as a list of calls.
\<close>

section \<open>Settings\<close>

record app_settings =
  as_service_name :: string
  as_database_url :: string
  as_otel_enabled :: bool
  as_otel_endpoint :: string
  as_otel_timeout :: rat
  as_otel_version :: string
  as_otel_environment :: string
  as_otel_excluded :: string
  as_log_level :: string

definition gateway_app_settings :: app_settings where
  "gateway_app_settings = \<lparr>as_service_name = ''event-gateway'', as_database_url = ''sqlite:///./gateway.db'',
     as_otel_enabled = False, as_otel_endpoint = ''http://localhost:4318'', as_otel_timeout = 5,
     as_otel_version = ''0.4.0'', as_otel_environment = ''local'', as_otel_excluded = ''health,metrics'',
     as_log_level = ''INFO''\<rparr>"

definition account_app_settings :: app_settings where
  "account_app_settings = \<lparr>as_service_name = ''account-service'', as_database_url = ''sqlite:///./account.db'',
     as_otel_enabled = False, as_otel_endpoint = ''http://localhost:4318'', as_otel_timeout = 5,
     as_otel_version = ''0.4.0'', as_otel_environment = ''local'', as_otel_excluded = ''health,metrics'',
     as_log_level = ''INFO''\<rparr>"

text \<open>The setting of the account service that its account route reads.\<close>

definition recent_transactions_limit :: int where
  "recent_transactions_limit = 20"

definition connect_args :: "app_settings \<Rightarrow> (string \<times> bool) list" where
  "connect_args st = (if prefix ''sqlite'' (as_database_url st) then [(''check_same_thread'', False)] else [])"

section \<open>Tracing export\<close>

text \<open>\<open>s.rstrip(c)\<close>.\<close>

definition rstrip :: "char \<Rightarrow> string \<Rightarrow> string" where
  "rstrip c s = rev (dropWhile (\<lambda>d. d = c) (rev s))"

definition trace_export_endpoint :: "string \<Rightarrow> string" where
  "trace_export_endpoint base_endpoint =
     (let endpoint = rstrip CHR ''/'' base_endpoint in
      if suffix ''/v1/traces'' endpoint then endpoint else endpoint @ ''/v1/traces'')"

record tracer_provider =
  tp_resource :: "(string \<times> string) list"
  tp_endpoint :: string
  tp_timeout :: rat

datatype telemetry_call =
    SetTracerProvider tracer_provider
  | InstrumentApp tracer_provider string
  | InstrumentHttpx tracer_provider
  | ForceFlush int
  | ShutdownProvider

text \<open>The module's globals \<open>_provider\<close> and \<open>_httpx_instrumented\<close>, the flag in \<open>app.state\<close>, the calls made.\<close>

record telemetry =
  te_provider :: "tracer_provider option"
  te_httpx :: bool
  te_app :: bool
  te_calls :: "telemetry_call list"

definition fresh_telemetry :: telemetry where
  "fresh_telemetry = \<lparr>te_provider = None, te_httpx = False, te_app = False, te_calls = []\<rparr>"

definition make_provider :: "app_settings \<Rightarrow> tracer_provider" where
  "make_provider st = \<lparr>tp_resource = [(''service.name'', as_service_name st),
       (''service.version'', as_otel_version st), (''deployment.environment.name'', as_otel_environment st)],
     tp_endpoint = trace_export_endpoint (as_otel_endpoint st), tp_timeout = as_otel_timeout st\<rparr>"

text \<open>The account service's copy has no \<open>instrument_httpx\<close>; it is the case \<open>False\<close>.\<close>

definition configure_telemetry :: "app_settings \<Rightarrow> bool \<Rightarrow> telemetry \<Rightarrow> tracer_provider option \<times> telemetry" where
  "configure_telemetry st instrument_httpx s0 =
     (if \<not> as_otel_enabled st then (None, s0)
      else
        (let s1 = (case te_provider s0 of
               None \<Rightarrow> s0\<lparr>te_provider := Some (make_provider st),
                 te_calls := te_calls s0 @ [SetTracerProvider (make_provider st)]\<rparr>
             | Some _ \<Rightarrow> s0);
             p = (case te_provider s1 of None \<Rightarrow> make_provider st | Some p \<Rightarrow> p);
             s2 = (if te_app s1 then s1
               else s1\<lparr>te_calls := te_calls s1 @ [InstrumentApp p (as_otel_excluded st)], te_app := True\<rparr>);
             s3 = (if instrument_httpx \<and> \<not> te_httpx s2
               then s2\<lparr>te_calls := te_calls s2 @ [InstrumentHttpx p], te_httpx := True\<rparr> else s2)
         in (te_provider s3, s3)))"

definition shutdown_telemetry :: "tracer_provider option \<Rightarrow> telemetry \<Rightarrow> telemetry" where
  "shutdown_telemetry provider s = (case provider of None \<Rightarrow> s
     | Some _ \<Rightarrow> s\<lparr>te_calls := te_calls s @ [ForceFlush 5000, ShutdownProvider]\<rparr>)"

text \<open>Several configurations one after the other, as when several applications are built in one process.\<close>

fun configure_all :: "app_settings \<Rightarrow> bool list \<Rightarrow> telemetry \<Rightarrow> telemetry" where
  "configure_all st [] s = s"
| "configure_all st (i # flags) s = configure_all st flags (snd (configure_telemetry st i s))"

lemma rstrip_append: "s \<noteq> [] \<Longrightarrow> List.last s \<noteq> c \<Longrightarrow> rstrip c (r @ s) = r @ s"
  by (cases s rule: rev_cases) (auto simp: rstrip_def)

lemma rstrip_last: "rstrip c s \<noteq> [] \<Longrightarrow> List.last (rstrip c s) \<noteq> c"
  using hd_dropWhile [of "\<lambda>d. d = c" "rev s"] by (auto simp: rstrip_def last_rev)

lemma rstrip_idem: "rstrip c (rstrip c s) = rstrip c s"
proof (cases "rstrip c s = []")
  case True
  then show ?thesis by (simp add: rstrip_def)
next
  case False
  with rstrip_append [of "rstrip c s" c "[]"] rstrip_last show ?thesis by simp
qed

lemma trace_export_endpoint_idem: "trace_export_endpoint (trace_export_endpoint b) = trace_export_endpoint b"
proof (cases "suffix ''/v1/traces'' (rstrip CHR ''/'' b)")
  case True
  then show ?thesis by (simp add: trace_export_endpoint_def Let_def rstrip_idem)
next
  case False
  then show ?thesis
    by (simp add: trace_export_endpoint_def Let_def rstrip_append suffix_def)
qed

lemma trace_export_endpoint_suffix: "suffix ''/v1/traces'' (trace_export_endpoint b)"
  by (simp add: trace_export_endpoint_def Let_def suffix_def)

text \<open>After the first configuration.\<close>

lemma configure_first:
  assumes "as_otel_enabled st"
  shows "snd (configure_telemetry st i fresh_telemetry) = \<lparr>te_provider = Some (make_provider st), te_httpx = i,
    te_app = True, te_calls = [SetTracerProvider (make_provider st), InstrumentApp (make_provider st) (as_otel_excluded st)]
      @ (if i then [InstrumentHttpx (make_provider st)] else [])\<rparr>"
  using assms by (simp add: configure_telemetry_def fresh_telemetry_def Let_def)

lemma configure_all_later:
  assumes "as_otel_enabled st" and "te_provider s = Some p" and "te_app s"
  shows "configure_all st flags s = s\<lparr>te_httpx := te_httpx s \<or> True \<in> set flags,
    te_calls := te_calls s @ (if \<not> te_httpx s \<and> True \<in> set flags then [InstrumentHttpx p] else [])\<rparr>"
  using assms(2,3)
proof (induction flags arbitrary: s)
  case Nil
  then show ?case by simp
next
  case (Cons i flags)
  have step: "snd (configure_telemetry st i s) = (if i \<and> \<not> te_httpx s
      then s\<lparr>te_calls := te_calls s @ [InstrumentHttpx p], te_httpx := True\<rparr> else s)"
    using assms(1) Cons.prems by (simp add: configure_telemetry_def Let_def)
  show ?case
  proof (cases "i \<and> \<not> te_httpx s")
    case True
    with step Cons.prems show ?thesis
      using Cons.IH [of "s\<lparr>te_calls := te_calls s @ [InstrumentHttpx p], te_httpx := True\<rparr>"] by simp
  next
    case False
    with step Cons.prems show ?thesis using Cons.IH [of s] by auto
  qed
qed

text \<open>
  Tracing is set up once: however often the applications of one process are configured, and with
  whatever flags, the tracer provider is created and installed once, before anything is instrumented
  with it, the application and the HTTP client are instrumented at most once (the client as soon as one
  configuration asks for it), and nothing is touched when tracing is disabled. The spans go to one
  address that ends in \<open>/v1/traces\<close>, whether or not the setting has that path or slashes at its end.
\<close>

lemma telemetry_configured_once:
  "te_calls (configure_all st flags fresh_telemetry) =
     (if as_otel_enabled st \<and> flags \<noteq> []
      then [SetTracerProvider (make_provider st), InstrumentApp (make_provider st) (as_otel_excluded st)]
        @ (if True \<in> set flags then [InstrumentHttpx (make_provider st)] else [])
      else [])
   \<and> suffix ''/v1/traces'' (tp_endpoint (make_provider st))
   \<and> trace_export_endpoint (tp_endpoint (make_provider st)) = tp_endpoint (make_provider st)"
proof -
  have off: "configure_all st flags s = s" if "\<not> as_otel_enabled st" for s
    using that by (induction flags) (simp_all add: configure_telemetry_def)
  have "te_calls (configure_all st flags fresh_telemetry) =
     (if as_otel_enabled st \<and> flags \<noteq> []
      then [SetTracerProvider (make_provider st), InstrumentApp (make_provider st) (as_otel_excluded st)]
        @ (if True \<in> set flags then [InstrumentHttpx (make_provider st)] else [])
      else [])"
  proof (cases "as_otel_enabled st")
    case False
    then show ?thesis by (simp add: off) (simp add: fresh_telemetry_def)
  next
    case True
    then show ?thesis
      by (cases flags) (auto simp: configure_first configure_all_later, simp add: fresh_telemetry_def)
  qed
  then show ?thesis
    by (simp add: make_provider_def trace_export_endpoint_idem trace_export_endpoint_suffix)
qed

section \<open>Log lines\<close>

text \<open>
  A log record: its level and message, the attributes of \<open>extra\<close>, and the exception it was logged with.
\<close>

record log_record =
  lr_level :: string
  lr_message :: string
  lr_extra :: "(string \<times> json) list"
  lr_exc :: "exn option"

definition log_keys :: "string list" where
  "log_keys = [''eventId'', ''accountId'', ''transactionType'', ''processingStatus'', ''action'', ''outcome'',
     ''method'', ''path'', ''statusCode'', ''durationMs'']"

text \<open>
  \<open>JsonFormatter.format\<close>: the dictionary that is rendered. \<open>timestamp\<close> is the text of the time of the
  call, \<open>trace_text\<close> renders an exception with its traceback.
\<close>

definition log_line :: "string \<Rightarrow> string \<Rightarrow> string \<Rightarrow> (exn \<Rightarrow> string) \<Rightarrow> log_record \<Rightarrow> (string \<times> json) list" where
  "log_line service timestamp tid trace_text r =
     [(''timestamp'', JStr timestamp), (''level'', JStr (lr_level r)), (''service'', JStr service),
      (''traceId'', JStr tid), (''message'', JStr (lr_message r))]
     @ concat (map (\<lambda>key. case map_of (lr_extra r) key of None \<Rightarrow> [] | Some v \<Rightarrow> [(key, v)]) log_keys)
     @ (case lr_exc r of None \<Rightarrow> [] | Some e \<Rightarrow> [(''exception'', JStr (trace_text e))])"

text \<open>The gateway's formatter.\<close>

definition gateway_log_line :: "string \<Rightarrow> string \<Rightarrow> (exn \<Rightarrow> string) \<Rightarrow> log_record \<Rightarrow> (string \<times> json) list" where
  "gateway_log_line timestamp tid trace_text r = log_line ''event-gateway'' timestamp tid trace_text r"

lemma map_of_optional:
  "map_of (concat (map (\<lambda>key. case f key of None \<Rightarrow> [] | Some v \<Rightarrow> [(key, v)]) keys)) k
   = (if k \<in> set keys then f k else None)"
  by (induction keys) (auto simp: map_add_def split: option.splits)

lemma optional_keys:
  "map fst (concat (map (\<lambda>key. case f key of None \<Rightarrow> [] | Some v \<Rightarrow> [(key, v)]) keys))
   = filter (\<lambda>key. f key \<noteq> None) keys"
  by (induction keys) (auto split: option.splits)

text \<open>A line in three parts: the fixed head, the attributes, the exception.\<close>

definition log_head :: "string \<Rightarrow> string \<Rightarrow> string \<Rightarrow> log_record \<Rightarrow> (string \<times> json) list" where
  "log_head service timestamp tid r = [(''timestamp'', JStr timestamp), (''level'', JStr (lr_level r)),
     (''service'', JStr service), (''traceId'', JStr tid), (''message'', JStr (lr_message r))]"

definition log_exc :: "(exn \<Rightarrow> string) \<Rightarrow> log_record \<Rightarrow> (string \<times> json) list" where
  "log_exc trace_text r = (case lr_exc r of None \<Rightarrow> [] | Some e \<Rightarrow> [(''exception'', JStr (trace_text e))])"

lemma log_line_parts: "log_line service timestamp tid trace_text r = log_head service timestamp tid r
  @ concat (map (\<lambda>key. case map_of (lr_extra r) key of None \<Rightarrow> [] | Some v \<Rightarrow> [(key, v)]) log_keys) @ log_exc trace_text r"
  by (simp add: log_line_def log_head_def log_exc_def)

lemma log_head_keys: "map fst (log_head service timestamp tid r)
  = [''timestamp'', ''level'', ''service'', ''traceId'', ''message'']"
  by (simp add: log_head_def)

lemma log_exc_keys: "map_of (log_exc trace_text r) k = None \<longleftrightarrow> k \<noteq> ''exception'' \<or> lr_exc r = None"
  by (auto simp: log_exc_def split: option.splits)

lemma all_log_keys_distinct:
  "distinct ([''timestamp'', ''level'', ''service'', ''traceId'', ''message''] @ log_keys @ [''exception''])"
  by code_simp

lemma distinct_middle: "distinct (xs @ ys @ [z]) \<Longrightarrow> zs \<in> {[], [z]} \<Longrightarrow> distinct (xs @ filter p ys @ zs)"
  by auto

lemma log_line_distinct: "distinct (map fst (log_line service timestamp tid trace_text r))"
proof -
  have "map fst (log_exc trace_text r) \<in> {[], [''exception'']}" by (simp add: log_exc_def split: option.split)
  from distinct_middle [OF all_log_keys_distinct this] show ?thesis
    by (simp only: log_line_parts map_append log_head_keys optional_keys)
qed

lemma map_of_log_line:
  "map_of (log_line service timestamp tid trace_text r) k =
     (case map_of (log_head service timestamp tid r) k of Some v \<Rightarrow> Some v
      | None \<Rightarrow> if k \<in> set log_keys \<and> map_of (lr_extra r) k \<noteq> None then map_of (lr_extra r) k
          else map_of (log_exc trace_text r) k)"
  by (simp add: log_line_parts map_add_def map_of_optional split: option.splits)

lemma log_head_None: "k \<in> set log_keys \<or> k \<in> {''attempt'', ''attempts''} \<Longrightarrow>
  map_of (log_head service timestamp tid r) k = None"
  by (auto simp: log_head_def log_keys_def)

lemma log_keys_other: "k \<in> set log_keys \<Longrightarrow> k \<noteq> ''exception''" "''attempt'' \<notin> set log_keys" "''attempts'' \<notin> set log_keys"
  by (auto simp: log_keys_def)

text \<open>
  Every log line identifies its request: it is a dictionary without repeated keys that carries the
  service, the level, the message and the trace id current when it is written; of the attributes a
  caller passes in \<open>extra\<close> exactly those of \<open>log_keys\<close> are in it, with their values, and every other
  one (\<open>attempt\<close> and \<open>attempts\<close> of the worker's messages) is left out without notice.
\<close>

theorem log_line_fields:
  "distinct (map fst (log_line service timestamp tid trace_text r))
   \<and> map_of (log_line service timestamp tid trace_text r) ''traceId'' = Some (JStr tid)
   \<and> map_of (log_line service timestamp tid trace_text r) ''service'' = Some (JStr service)
   \<and> map_of (log_line service timestamp tid trace_text r) ''message'' = Some (JStr (lr_message r))
   \<and> map_of (log_line service timestamp tid trace_text r) ''attempt'' = None
   \<and> map_of (log_line service timestamp tid trace_text r) ''attempts'' = None
   \<and> list_all (\<lambda>k. map_of (log_line service timestamp tid trace_text r) k = map_of (lr_extra r) k) log_keys"
proof -
  have "map_of (log_line service timestamp tid trace_text r) k = map_of (lr_extra r) k" if "k \<in> set log_keys" for k
    using that by (simp add: map_of_log_line log_head_None log_exc_keys log_keys_other)
  moreover have "map_of (log_line service timestamp tid trace_text r) k = None" if "k \<in> {''attempt'', ''attempts''}" for k
    using that by (auto simp: map_of_log_line log_head_None log_exc_keys log_keys_other)
  moreover have "map_of (log_line service timestamp tid trace_text r) ''traceId'' = Some (JStr tid)"
    "map_of (log_line service timestamp tid trace_text r) ''service'' = Some (JStr service)"
    "map_of (log_line service timestamp tid trace_text r) ''message'' = Some (JStr (lr_message r))"
    by (simp_all add: map_of_log_line log_head_def)
  ultimately show ?thesis using log_line_distinct by (simp add: list_all_iff)
qed

section \<open>The root logger\<close>

text \<open>
  The root logger of a process: the services in the formatters of its handlers and its level. All loggers of
  the code hand their records to it. A name \<open>setLevel\<close> does not know makes it raise.
\<close>

record root_logger =
  lg_handlers :: "string list"
  lg_level :: nat

definition level_number :: "string \<Rightarrow> nat option" where
  "level_number = map_of [(''CRITICAL'', 50), (''FATAL'', 50), (''ERROR'', 40), (''WARN'', 30), (''WARNING'', 30),
     (''INFO'', 20), (''DEBUG'', 10), (''NOTSET'', 0)]"

definition configure_logging :: "platform \<Rightarrow> string \<Rightarrow> string \<Rightarrow> root_logger \<Rightarrow> (exn + unit) \<times> root_logger" where
  "configure_logging P service level lg =
     (let lg = lg\<lparr>lg_handlers := [service]\<rparr> in
      case level_number (str_upper P level) of
        None \<Rightarrow> (Inl (OtherException ''ValueError''), lg)
      | Some n \<Rightarrow> (Inr (), lg\<lparr>lg_level := n\<rparr>))"

text \<open>What the root logger writes for a record: one rendered line for each handler, from its level on.\<close>

definition written :: "root_logger \<Rightarrow> string \<Rightarrow> string \<Rightarrow> (exn \<Rightarrow> string) \<Rightarrow> log_record \<Rightarrow> (string \<times> json) list list" where
  "written lg timestamp tid trace_text r =
     (case level_number (lr_level r) of
        None \<Rightarrow> []
      | Some n \<Rightarrow> if n < lg_level lg then []
          else map (\<lambda>service. log_line service timestamp tid trace_text r) (lg_handlers lg))"

text \<open>
  However often a process configures its logging, each record is written as one line of its own service, and
  none is lost, as long as its level is not below the configured one.
\<close>

lemma configured_logging_writes_once:
  assumes "level_number (str_upper P level) = Some n" and "level_number (lr_level r) = Some m" and "n \<le> m"
  shows "written (((\<lambda>lg. snd (configure_logging P service level lg)) ^^ Suc calls) lg) timestamp tid trace_text r
    = [log_line service timestamp tid trace_text r]"
  using assms by (simp add: written_def configure_logging_def Let_def)

section \<open>Start and stop of the background worker\<close>

text \<open>
  The application's state: the worker's task and its stop event (whether it is set), the tasks that run
  in the event loop, the number of tasks created, and the telemetry.
\<close>

record lifecycle =
  lc_task :: "nat option"
  lc_stop :: "bool option"
  lc_running :: "nat list"
  lc_created :: nat
  lc_telemetry :: telemetry
  lc_provider :: "tracer_provider option"

definition startup :: "settings \<Rightarrow> lifecycle \<Rightarrow> lifecycle" where
  "startup st lc = (if st_fallback_enabled st \<and> lc_task lc = None
     then lc\<lparr>lc_stop := Some False, lc_task := Some (lc_created lc), lc_running := lc_running lc @ [lc_created lc],
       lc_created := Suc (lc_created lc)\<rparr>
     else lc)"

text \<open>
  How waiting for the task ends: it returns, it does not within the time (then \<open>wait_for\<close> has cancelled
  it), or it has raised, which \<open>wait_for\<close> raises again.
\<close>

datatype waited = Returned | TimedOut | Raised exn

definition shutdown_timeout :: "settings \<Rightarrow> rat" where
  "shutdown_timeout st = max 2 (st_poll_seconds st + 1)"

definition shutdown :: "waited \<Rightarrow> lifecycle \<Rightarrow> exn option \<times> lifecycle" where
  "shutdown wtd lc =
     (let (err, lc1) = (case (lc_stop lc, lc_task lc) of
            (Some _, Some n) \<Rightarrow>
              ((case wtd of Raised e \<Rightarrow> Some e | _ \<Rightarrow> None),
               lc\<lparr>lc_running := filter (\<lambda>m. m \<noteq> n) (lc_running lc), lc_task := None, lc_stop := None\<rparr>)
          | _ \<Rightarrow> (None, lc))
      in case err of
           Some e \<Rightarrow> (Some e, lc1)
         | None \<Rightarrow> (None, lc1\<lparr>lc_telemetry := shutdown_telemetry (lc_provider lc1) (lc_telemetry lc1)\<rparr>))"

datatype phase = Startup | Shutdown waited

fun lifecycle_step :: "settings \<Rightarrow> phase \<Rightarrow> lifecycle \<Rightarrow> lifecycle" where
  "lifecycle_step st Startup lc = startup st lc"
| "lifecycle_step st (Shutdown wtd) lc = snd (shutdown wtd lc)"

text \<open>
  The state after the module is loaded: no worker, tracing configured with the HTTP client. The account
  service has no worker; its start-up and shutdown are about tracing alone.
\<close>

definition gateway_boot :: "app_settings \<Rightarrow> lifecycle" where
  "gateway_boot cfg = (let (p, te) = configure_telemetry cfg True fresh_telemetry in
     \<lparr>lc_task = None, lc_stop = None, lc_running = [], lc_created = 0, lc_telemetry = te, lc_provider = p\<rparr>)"

text \<open>The account service's \<open>configure_telemetry\<close> has no HTTP client to instrument.\<close>

definition configure_account_telemetry :: "app_settings \<Rightarrow> telemetry \<Rightarrow> tracer_provider option \<times> telemetry" where
  "configure_account_telemetry cfg s = configure_telemetry cfg False s"

definition account_boot :: "app_settings \<Rightarrow> tracer_provider option \<times> telemetry" where
  "account_boot cfg = configure_account_telemetry cfg fresh_telemetry"

definition account_shutdown :: "tracer_provider option \<times> telemetry \<Rightarrow> telemetry" where
  "account_shutdown app = shutdown_telemetry (fst app) (snd app)"

definition after_phases :: "app_settings \<Rightarrow> settings \<Rightarrow> phase list \<Rightarrow> lifecycle" where
  "after_phases cfg st ps = fold (lifecycle_step st) ps (gateway_boot cfg)"

definition one_worker :: "app_settings \<Rightarrow> settings \<Rightarrow> lifecycle \<Rightarrow> bool" where
  "one_worker cfg st lc \<longleftrightarrow> lc_running lc = (case lc_task lc of None \<Rightarrow> [] | Some n \<Rightarrow> [n])
     \<and> lc_stop lc = (case lc_task lc of None \<Rightarrow> None | Some n \<Rightarrow> Some False)
     \<and> (\<not> st_fallback_enabled st \<longrightarrow> lc_task lc = None)
     \<and> lc_provider lc = (if as_otel_enabled cfg then Some (make_provider cfg) else None)"

interpretation lifecycle_run: invariant_machine "lifecycle_step st" "\<lambda>_. True" "one_worker cfg st"
proof
  fix lc i
  assume "one_worker cfg st lc"
  then show "one_worker cfg st (lifecycle_step st i lc)"
    by (cases i) (auto simp: one_worker_def startup_def shutdown_def Let_def split: option.splits waited.splits)
qed

lemma boot_one_worker: "one_worker cfg st (gateway_boot cfg)"
  by (simp add: one_worker_def gateway_boot_def configure_telemetry_def fresh_telemetry_def Let_def)

lemma account_boot_calls:
  "te_calls (account_shutdown (account_boot cfg)) = (if as_otel_enabled cfg
     then [SetTracerProvider (make_provider cfg), InstrumentApp (make_provider cfg) (as_otel_excluded cfg),
       ForceFlush 5000, ShutdownProvider] else [])"
  by (simp add: account_shutdown_def account_boot_def configure_account_telemetry_def shutdown_telemetry_def configure_telemetry_def
      fresh_telemetry_def Let_def)

text \<open>What the invariant says of the next start-up and the next shutdown.\<close>

lemma one_worker_next:
  assumes "one_worker cfg st lc"
  shows "length (lc_running (startup st lc)) = (if st_fallback_enabled st then 1 else 0)"
    and "startup st (startup st lc) = startup st lc"
    and "lc_running (snd (shutdown wtd lc)) = []"
    and "te_calls (lc_telemetry (snd (shutdown wtd lc))) = te_calls (lc_telemetry lc)
      @ (if as_otel_enabled cfg \<and> fst (shutdown wtd lc) = None then [ForceFlush 5000, ShutdownProvider] else [])"
  using assms
  by (auto simp: one_worker_def startup_def shutdown_def shutdown_telemetry_def Let_def split: option.splits waited.splits)

lemma after_phases_one_worker: "one_worker cfg st (after_phases cfg st ps)"
  unfolding after_phases_def by (rule lifecycle_run.run_inv [OF boot_one_worker]) (simp add: list_all_iff)

end
