(* ===== verification/GatewayDb.thy ===== *)
theory GatewayDb
  imports AuditTrail AccountDb
begin

text \<open>
  The gateway's database: the rows of \<open>event-gateway/app/db/models.py\<close>, session writes and commits as
  in the account service, \<open>EventRepository\<close> (\<open>app/repositories/events.py\<close>) and
  \<open>DeliveryQueueRepository\<close> (\<open>app/repositories/delivery_queue.py\<close>). Metadata and payloads come back
  from their JSON columns as they were stored.
\<close>

section \<open>Rows\<close>

datatype proc_status = PENDING | QUEUED | APPLIED | FAILED

text \<open>
  The life of an event: \<open>PENDING\<close>, then possibly \<open>QUEUED\<close>, then \<open>APPLIED\<close> or \<open>FAILED\<close>. The order is
  the order of declaration in the source.
\<close>

fun status_rank :: "proc_status \<Rightarrow> nat" where
  "status_rank PENDING = 0"
| "status_rank QUEUED = 1"
| "status_rank APPLIED = 2"
| "status_rank FAILED = 3"

instantiation proc_status :: linorder
begin

definition less_eq_proc_status :: "proc_status \<Rightarrow> proc_status \<Rightarrow> bool" where
  "less_eq_proc_status s t \<longleftrightarrow> status_rank s \<le> status_rank t"

definition less_proc_status :: "proc_status \<Rightarrow> proc_status \<Rightarrow> bool" where
  "less_proc_status s t \<longleftrightarrow> status_rank s < status_rank t"

lemma status_rank_inj: "status_rank s = status_rank t \<longleftrightarrow> s = t"
  by (cases s; cases t) auto

instance
  by standard (auto simp: less_eq_proc_status_def less_proc_status_def status_rank_inj [symmetric])

end

definition terminal :: "proc_status \<Rightarrow> bool" where
  "terminal s \<longleftrightarrow> s \<in> {APPLIED, FAILED}"

record event_row =
  ev_id :: string
  ev_account :: string
  ev_type :: txn_type
  ev_amount :: money
  ev_currency :: string
  ev_timestamp :: datetime
  ev_metadata :: "(string \<times> json) list option"
  ev_status :: proc_status
  ev_created :: datetime
  ev_updated :: datetime

record delivery =
  pd_event_id :: string
  pd_account :: string
  pd_payload :: payload
  pd_trace :: string
  pd_attempts :: int
  pd_next :: datetime
  pd_last_error :: "string option"
  pd_created :: datetime
  pd_updated :: datetime

record gw_db =
  gd_events :: "event_row list"
  gd_deliveries :: "delivery list"
  gd_audits :: "audit list"

definition empty_gw_db :: gw_db where
  "empty_gw_db = \<lparr>gd_events = [], gd_deliveries = [], gd_audits = []\<rparr>"

section \<open>The session\<close>

datatype gw_write =
    InsEvent event_row
  | UpdEvent string proc_status datetime
  | InsDelivery delivery
  | Requeue string payload string datetime
  | Reschedule string int string datetime datetime
  | DelDelivery string
  | GwAudit audit

definition stored_event :: "platform \<Rightarrow> event_row \<Rightarrow> event_row" where
  "stored_event P ev = ev\<lparr>ev_amount := num_col P (ev_amount ev), ev_timestamp := ts_col P (ev_timestamp ev),
     ev_created := ts_col P (ev_created ev), ev_updated := ts_col P (ev_updated ev)\<rparr>"

definition stored_delivery :: "platform \<Rightarrow> delivery \<Rightarrow> delivery" where
  "stored_delivery P d = d\<lparr>pd_next := ts_col P (pd_next d), pd_created := ts_col P (pd_created d),
     pd_updated := ts_col P (pd_updated d)\<rparr>"

definition set_status :: "platform \<Rightarrow> proc_status \<Rightarrow> datetime \<Rightarrow> event_row \<Rightarrow> event_row" where
  "set_status P s t ev = ev\<lparr>ev_status := s, ev_updated := ts_col P t\<rparr>"

definition set_requeued :: "platform \<Rightarrow> payload \<Rightarrow> string \<Rightarrow> datetime \<Rightarrow> delivery \<Rightarrow> delivery" where
  "set_requeued P p tid t d = d\<lparr>pd_payload := p, pd_trace := tid, pd_next := ts_col P t, pd_updated := ts_col P t\<rparr>"

definition set_rescheduled :: "platform \<Rightarrow> int \<Rightarrow> string \<Rightarrow> datetime \<Rightarrow> datetime \<Rightarrow> delivery \<Rightarrow> delivery" where
  "set_rescheduled P n err next_at t d = d\<lparr>pd_attempts := n, pd_last_error := Some err,
     pd_next := ts_col P next_at, pd_updated := ts_col P t\<rparr>"

text \<open>An UPDATE that matches no row raises \<open>StaleDataError\<close>; a DELETE that matches none only warns.\<close>

definition upd_events :: "(event_row list \<Rightarrow> event_row list option) \<Rightarrow> gw_db \<Rightarrow> db_error \<Rightarrow> db_error + gw_db" where
  "upd_events f db err = (case f (gd_events db) of None \<Rightarrow> Inl err | Some rows \<Rightarrow> Inr (db\<lparr>gd_events := rows\<rparr>))"

definition upd_deliveries :: "(delivery list \<Rightarrow> delivery list option) \<Rightarrow> gw_db \<Rightarrow> db_error \<Rightarrow> db_error + gw_db" where
  "upd_deliveries f db err =
     (case f (gd_deliveries db) of None \<Rightarrow> Inl err | Some rows \<Rightarrow> Inr (db\<lparr>gd_deliveries := rows\<rparr>))"

fun gw_exec :: "platform \<Rightarrow> gw_write \<Rightarrow> gw_db \<Rightarrow> db_error + gw_db" where
  "gw_exec P (InsEvent ev) db = upd_events (tins ev_id (stored_event P ev)) db IntegrityError"
| "gw_exec P (UpdEvent k s t) db = upd_events (tupd ev_id k (set_status P s t)) db StaleDataError"
| "gw_exec P (InsDelivery d) db = upd_deliveries (tins pd_event_id (stored_delivery P d)) db IntegrityError"
| "gw_exec P (Requeue k p tid t) db = upd_deliveries (tupd pd_event_id k (set_requeued P p tid t)) db StaleDataError"
| "gw_exec P (Reschedule k n err nxt t) db =
     upd_deliveries (tupd pd_event_id k (set_rescheduled P n err nxt t)) db StaleDataError"
| "gw_exec P (DelDelivery k) db = Inr (db\<lparr>gd_deliveries := tdel pd_event_id k (gd_deliveries db)\<rparr>)"
| "gw_exec P (GwAudit a) db = Inr (db\<lparr>gd_audits := insert_audit P a (gd_audits db)\<rparr>)"

fun gw_flush :: "platform \<Rightarrow> gw_write list \<Rightarrow> gw_db \<Rightarrow> db_error + gw_db" where
  "gw_flush P [] db = Inr db"
| "gw_flush P (x # xs) db = (case gw_exec P x db of Inl err \<Rightarrow> Inl err | Inr db' \<Rightarrow> gw_flush P xs db')"

definition gw_commit :: "platform \<Rightarrow> gw_write list \<Rightarrow> gw_db \<Rightarrow> db_error option \<times> gw_db" where
  "gw_commit P ws db = (case gw_flush P ws db of Inl err \<Rightarrow> (Some err, db) | Inr db' \<Rightarrow> (None, db'))"

definition gw_audit :: "platform \<Rightarrow> env \<Rightarrow> string \<Rightarrow> string \<Rightarrow> string \<Rightarrow> string \<Rightarrow> details option \<Rightarrow> gw_db \<Rightarrow> gw_db" where
  "gw_audit P e action outcome ev acc det db =
     snd (gw_commit P [GwAudit (new_audit e action outcome ev acc det)] db)"

section \<open>Repositories\<close>

definition get_event :: "string \<Rightarrow> gw_db \<Rightarrow> event_row option" where
  "get_event k db = tget ev_id k (gd_events db)"

definition list_for_account :: "string \<Rightarrow> nat \<Rightarrow> nat \<Rightarrow> gw_db \<Rightarrow> event_row list" where
  "list_for_account acc lmt off db =
     take lmt (drop off (sort_key (\<lambda>ev. (instant (ev_timestamp ev), ev_id ev))
       (filter (\<lambda>ev. ev_account ev = acc) (gd_events db))))"

definition get_delivery :: "string \<Rightarrow> gw_db \<Rightarrow> delivery option" where
  "get_delivery k db = tget pd_event_id k (gd_deliveries db)"

text \<open>
  \<open>enqueue\<close>: the write it leaves in the session. An existing row keeps its account, its attempt
  count and its last error.
\<close>

definition new_delivery :: "env \<Rightarrow> string \<Rightarrow> string \<Rightarrow> payload \<Rightarrow> string \<Rightarrow> delivery" where
  "new_delivery e event_id account_id p tid = \<lparr>pd_event_id = event_id, pd_account = account_id,
     pd_payload = p, pd_trace = tid, pd_attempts = 0, pd_next = now e, pd_last_error = None,
     pd_created = now e, pd_updated = now e\<rparr>"

definition enqueue :: "env \<Rightarrow> string \<Rightarrow> string \<Rightarrow> payload \<Rightarrow> string \<Rightarrow> gw_db \<Rightarrow> gw_write" where
  "enqueue e event_id account_id p tid db = (case get_delivery event_id db of
     Some _ \<Rightarrow> Requeue event_id p tid (now e)
   | None \<Rightarrow> InsDelivery (new_delivery e event_id account_id p tid))"

definition due_event_ids :: "int \<Rightarrow> datetime \<Rightarrow> gw_db \<Rightarrow> string list" where
  "due_event_ids lmt t db =
     (let due = map pd_event_id (sort_key (\<lambda>d. (instant (pd_next d), pd_event_id d))
            (filter (\<lambda>d. instant (pd_next d) \<le> instant t) (gd_deliveries db)))
      in if lmt < 0 then due else take (nat lmt) due)"

definition delivery_count :: "gw_db \<Rightarrow> nat" where
  "delivery_count db = length (gd_deliveries db)"

section \<open>Lookup and frame lemmas\<close>

lemma stored_event_sel [simp]:
  "ev_id (stored_event P ev) = ev_id ev" "ev_account (stored_event P ev) = ev_account ev"
  "ev_type (stored_event P ev) = ev_type ev" "ev_amount (stored_event P ev) = num_col P (ev_amount ev)"
  "ev_currency (stored_event P ev) = ev_currency ev" "ev_metadata (stored_event P ev) = ev_metadata ev"
  "ev_timestamp (stored_event P ev) = ts_col P (ev_timestamp ev)" "ev_status (stored_event P ev) = ev_status ev"
  by (simp_all add: stored_event_def)

lemma set_status_sel [simp]:
  "ev_id (set_status P s t ev) = ev_id ev" "ev_account (set_status P s t ev) = ev_account ev"
  "ev_type (set_status P s t ev) = ev_type ev" "ev_amount (set_status P s t ev) = ev_amount ev"
  "ev_currency (set_status P s t ev) = ev_currency ev" "ev_timestamp (set_status P s t ev) = ev_timestamp ev"
  "ev_metadata (set_status P s t ev) = ev_metadata ev" "ev_status (set_status P s t ev) = s"
  by (simp_all add: set_status_def)

lemma delivery_sel [simp]:
  "pd_event_id (stored_delivery P d) = pd_event_id d" "pd_payload (stored_delivery P d) = pd_payload d"
  "pd_event_id (set_requeued P p tid t d) = pd_event_id d" "pd_payload (set_requeued P p tid t d) = p"
  "pd_event_id (set_rescheduled P n err nx t d) = pd_event_id d"
  "pd_payload (set_rescheduled P n err nx t d) = pd_payload d"
  "pd_attempts (set_rescheduled P n err nx t d) = n"
  "pd_event_id (new_delivery e k a p tid) = k" "pd_payload (new_delivery e k a p tid) = p"
  by (simp_all add: stored_delivery_def set_requeued_def set_rescheduled_def new_delivery_def)

interpretation events: keyed_table ev_id "\<lambda>k rows. tget ev_id k rows" "tins ev_id" "uniq ev_id"
  by unfold_locales (auto simp: tget_tins tins_None intro: uniq_tins)

interpretation deliveries: keyed_table pd_event_id "\<lambda>k rows. tget pd_event_id k rows" "tins pd_event_id"
    "uniq pd_event_id"
  by unfold_locales (auto simp: tget_tins tins_None intro: uniq_tins)

text \<open>The effect of each write on the two lookups.\<close>

lemma get_event_exec:
  assumes "gw_exec P x db = Inr db'"
  shows "get_event k db' = (case x of
      InsEvent ev \<Rightarrow> if k = ev_id ev then Some (stored_event P ev) else get_event k db
    | UpdEvent j s t \<Rightarrow> if k = j then map_option (set_status P s t) (get_event k db) else get_event k db
    | _ \<Rightarrow> get_event k db)"
  using assms
  by (cases x) (auto simp: get_event_def upd_events_def upd_deliveries_def tget_tins
      tget_tupd [where f = "set_status P s t" for P s t] split: option.splits)

lemma get_delivery_exec:
  assumes "gw_exec P x db = Inr db'"
  shows "get_delivery k db' = (case x of
      InsDelivery d \<Rightarrow> if k = pd_event_id d then Some (stored_delivery P d) else get_delivery k db
    | Requeue j p tid t \<Rightarrow> if k = j then map_option (set_requeued P p tid t) (get_delivery k db) else get_delivery k db
    | Reschedule j n err nx t \<Rightarrow>
        if k = j then map_option (set_rescheduled P n err nx t) (get_delivery k db) else get_delivery k db
    | DelDelivery j \<Rightarrow> if k = j then None else get_delivery k db
    | _ \<Rightarrow> get_delivery k db)"
  using assms
  by (cases x) (auto simp: get_delivery_def upd_events_def upd_deliveries_def tget_tins tget_tdel
      tget_tupd [where f = "set_requeued P p tid t" for P p tid t]
      tget_tupd [where f = "set_rescheduled P n err nx t" for P n err nx t] split: option.splits)

lemma gw_audit_eq [session_simps]:
  "gw_audit P e action outcome ev acc det db =
     db\<lparr>gd_audits := insert_audit P (new_audit e action outcome ev acc det) (gd_audits db)\<rparr>"
  by (simp add: gw_audit_def gw_commit_def)

lemma gw_audit_frame [simp, frame_simps]:
  "gd_events (gw_audit P e ac out ev acc det db) = gd_events db"
  "gd_deliveries (gw_audit P e ac out ev acc det db) = gd_deliveries db"
  "get_event k (gw_audit P e ac out ev acc det db) = get_event k db"
  "get_delivery k (gw_audit P e ac out ev acc det db) = get_delivery k db"
  by (simp_all add: gw_audit_eq get_event_def get_delivery_def)

end
