(* ===== verification/EventService.thy ===== *)
theory EventService
  imports GatewayDb Client AccountService "HOL-Library.Multiset"
begin

text \<open>
  \<open>EventService.submit\<close> (\<open>event-gateway/app/services/event_service.py\<close>) and the event and balance
  routes of the gateway (\<open>app/api/routes_events.py\<close>, \<open>app/api/routes_accounts.py\<close>).

  The client is the argument \<open>call\<close>, a function of its state \<open>'c\<close>; the theory \<open>Client\<close> provides it.
  \<open>w1\<close> is what other sessions commit between the lookup of the event and its INSERT, \<open>w2\<close> what they
  commit while the handler awaits the account service. All clock readings of a request are its
  \<open>now\<close>. The log records are those of the theory \<open>HandlerLog\<close>.
\<close>

section \<open>State\<close>

record metrics =
  m_queued :: nat
  m_processed :: nat
  m_retried :: nat
  m_failed :: nat
  m_depth :: nat

record 'c gateway =
  gw_db :: gw_db
  gw_client :: 'c
  gw_metrics :: metrics

type_synonym 'c caller = "string \<Rightarrow> payload \<Rightarrow> 'c \<Rightarrow> call_result \<times> 'c"

type_synonym others = "gw_db \<Rightarrow> gw_db"

section \<open>Comparing a stored event with a request\<close>

text \<open>\<open>(event.metadata_json or None) == command.metadata\<close>: an empty stored dict counts as \<open>None\<close>.\<close>

definition metadata_eq :: "(string \<times> json) list option \<Rightarrow> (string \<times> json) list option \<Rightarrow> bool" where
  "metadata_eq stored given =
     (case (case stored of Some [] \<Rightarrow> None | s \<Rightarrow> s, given) of
        (None, None) \<Rightarrow> True
      | (Some a, Some b) \<Rightarrow> py_eq (JObj a) (JObj b)
      | _ \<Rightarrow> False)"

definition same_event :: "event_row \<Rightarrow> event_create \<Rightarrow> bool" where
  "same_event ev c \<longleftrightarrow> ev_account ev = ec_account_id c \<and> ev_type ev = ec_type c
     \<and> ev_amount ev = ec_amount c \<and> ev_currency ev = ec_currency c
     \<and> utc_naive (ev_timestamp ev) = utc_naive (ec_timestamp c)
     \<and> metadata_eq (ev_metadata ev) (ec_metadata c)"

section \<open>submit\<close>

definition new_event :: "env \<Rightarrow> event_create \<Rightarrow> event_row" where
  "new_event e c = \<lparr>ev_id = ec_event_id c, ev_account = ec_account_id c, ev_type = ec_type c,
     ev_amount = ec_amount c, ev_currency = ec_currency c, ev_timestamp = ec_timestamp c,
     ev_metadata = ec_metadata c, ev_status = PENDING, ev_created = now e, ev_updated = now e\<rparr>"

definition fallback_unavailable :: exn where
  "fallback_unavailable = HTTPException 503 (JObj [(''code'', JStr ''ACCOUNT_SERVICE_UNAVAILABLE''),
     (''message'', JStr ''Account processing is temporarily unavailable''), (''retryable'', JBool True)])"

text \<open>
  The detail of a downstream error: \<open>response.json()\<close> for a JSON answer (which raises when the text
  is not JSON), else the text; then \<open>detail.get(''error'', detail)\<close>, which a value that is not a
  dict does not have.
\<close>

definition downstream_detail :: "response \<Rightarrow> exn + json" where
  "downstream_detail r = (if rs_is_json r
     then (case rs_json r of None \<Rightarrow> Inl (OtherException ''JSONDecodeError'') | Some v \<Rightarrow> Inr v)
     else Inr (JObj [(''message'', JStr (rs_text r))]))"

fun downstream_error :: "int \<Rightarrow> json \<Rightarrow> exn" where
  "downstream_error st (JObj d) = HTTPException st (dict_get d ''error'' (JObj d))"
| "downstream_error st _ = OtherException ''AttributeError''"

text \<open>A refused commit surfaces as a database error.\<close>

definition committed_event :: "string \<Rightarrow> gw_db \<Rightarrow> exn + (event_row \<times> bool)" where
  "committed_event k db = (case get_event k db of None \<Rightarrow> Inl SQLAlchemyError | Some ev \<Rightarrow> Inr (ev, True))"

text \<open>The branches after the call: rejected, applied, unavailable with and without fallback, crashed.\<close>

definition submit_rejected :: "platform \<Rightarrow> env \<Rightarrow> event_create \<Rightarrow> response \<Rightarrow> gw_db
    \<Rightarrow> (exn + (event_row \<times> bool)) \<times> gw_db" where
  "submit_rejected P e c r db =
     (case gw_commit P [UpdEvent (ec_event_id c) FAILED (now e)] db of
        (Some _, db') \<Rightarrow> (Inl SQLAlchemyError, db')
      | (None, db1) \<Rightarrow> (case downstream_detail r of
          Inl err \<Rightarrow> (Inl err, db1)
        | Inr detail \<Rightarrow>
            (Inl (downstream_error (rs_status r) detail),
             gw_audit P e ''EVENT_PROCESSING_FAILED'' ''FAILURE'' (ec_event_id c) (ec_account_id c)
               (Some [(''downstreamStatus'', DInt (rs_status r))]) db1)))"

definition submit_applied :: "platform \<Rightarrow> env \<Rightarrow> event_create \<Rightarrow> gw_db \<Rightarrow> (exn + (event_row \<times> bool)) \<times> gw_db" where
  "submit_applied P e c db =
     (case gw_commit P [UpdEvent (ec_event_id c) APPLIED (now e)] db of
        (Some _, db') \<Rightarrow> (Inl SQLAlchemyError, db')
      | (None, db1) \<Rightarrow>
          (committed_event (ec_event_id c) db1,
           gw_audit P e ''EVENT_APPLIED'' ''SUCCESS'' (ec_event_id c) (ec_account_id c) None db1))"

definition submit_queued :: "platform \<Rightarrow> env \<Rightarrow> event_create \<Rightarrow> gw_db \<Rightarrow> (exn + (event_row \<times> bool)) \<times> gw_db" where
  "submit_queued P e c db =
     (case gw_commit P
        [UpdEvent (ec_event_id c) QUEUED (now e),
         enqueue e (ec_event_id c) (ec_account_id c) (payload_of c) (trace e) db,
         GwAudit (new_audit e ''EVENT_QUEUED'' ''QUEUED'' (ec_event_id c) (ec_account_id c)
           (Some [(''reason'', DText ''account service unavailable'')]))] db of
        (Some _, db') \<Rightarrow> (Inl SQLAlchemyError, db')
      | (None, db1) \<Rightarrow> (committed_event (ec_event_id c) db1, db1))"

definition submit_unavailable :: "platform \<Rightarrow> env \<Rightarrow> event_create \<Rightarrow> gw_db \<Rightarrow> (exn + (event_row \<times> bool)) \<times> gw_db" where
  "submit_unavailable P e c db =
     (case gw_commit P [UpdEvent (ec_event_id c) FAILED (now e)] db of
        (Some _, db') \<Rightarrow> (Inl SQLAlchemyError, db')
      | (None, db1) \<Rightarrow>
          (Inl fallback_unavailable,
           gw_audit P e ''EVENT_PROCESSING_FAILED'' ''FAILURE'' (ec_event_id c) (ec_account_id c)
             (Some [(''reason'', DText ''account service unavailable'')]) db1))"

definition after_call :: "platform \<Rightarrow> settings \<Rightarrow> env \<Rightarrow> event_create \<Rightarrow> call_result \<Rightarrow> gw_db
    \<Rightarrow> (exn + (event_row \<times> bool)) \<times> gw_db" where
  "after_call P st e c res db = (case res of
     Got r \<Rightarrow> if 400 \<le> rs_status r then submit_rejected P e c r db else submit_applied P e c db
   | Unavailable _ \<Rightarrow> if st_fallback_enabled st then submit_queued P e c db else submit_unavailable P e c db
   | Crashed m \<Rightarrow> (Inl (OtherException m), db))"

definition event_replay :: "platform \<Rightarrow> env \<Rightarrow> event_create \<Rightarrow> event_row \<Rightarrow> gw_db
    \<Rightarrow> (exn + (event_row \<times> bool)) \<times> gw_db" where
  "event_replay P e c existing db = (Inr (existing, False),
     gw_audit P e ''EVENT_REPLAYED'' ''REPLAY'' (ec_event_id c) (ec_account_id c) None db)"

definition event_conflict :: "platform \<Rightarrow> env \<Rightarrow> event_create \<Rightarrow> string \<Rightarrow> details option \<Rightarrow> gw_db
    \<Rightarrow> (exn + (event_row \<times> bool)) \<times> gw_db" where
  "event_conflict P e c message det db = (Inl (conflict message),
     gw_audit P e ''EVENT_CONFLICT_REJECTED'' ''FAILURE'' (ec_event_id c) (ec_account_id c) det db)"

text \<open>The whole handler. The metric counts a delivery once it is committed.\<close>

definition count_queued :: "settings \<Rightarrow> call_result \<Rightarrow> exn + 'a \<Rightarrow> metrics \<Rightarrow> metrics" where
  "count_queued st res out m = (case (res, out) of
     (Unavailable _, Inr _) \<Rightarrow> if st_fallback_enabled st then m\<lparr>m_queued := Suc (m_queued m)\<rparr> else m
   | _ \<Rightarrow> m)"

text \<open>
  The handler up to the call: a replay, a conflict, or (\<open>None\<close>) the event stored as \<open>PENDING\<close> and
  audited, so that the account service is to be called.
\<close>

definition submit_start :: "platform \<Rightarrow> env \<Rightarrow> others \<Rightarrow> event_create \<Rightarrow> gw_db
    \<Rightarrow> (exn + (event_row \<times> bool)) option \<times> gw_db" where
  "submit_start P e w1 c db =
     (case get_event (ec_event_id c) db of
        Some existing \<Rightarrow> map_prod Some id
          (if \<not> same_event existing c
           then event_conflict P e c ''eventId already exists with different event data''
                  (Some [(''reason'', DText ''eventId already exists with different event data'')]) db
           else event_replay P e c existing db)
      | None \<Rightarrow>
          (case gw_commit P [InsEvent (new_event e c)] (w1 db) of
             (Some _, db1) \<Rightarrow> map_prod Some id
               (case get_event (ec_event_id c) db1 of
                  Some existing \<Rightarrow>
                    if same_event existing c then event_replay P e c existing db1
                    else event_conflict P e c ''eventId already exists'' None db1
                | None \<Rightarrow> event_conflict P e c ''eventId already exists'' None db1)
           | (None, db1) \<Rightarrow>
               (None, gw_audit P e ''EVENT_STORED'' ''SUCCESS'' (ec_event_id c) (ec_account_id c) None db1)))"

definition submit ::
  "platform \<Rightarrow> settings \<Rightarrow> env \<Rightarrow> others \<Rightarrow> others \<Rightarrow> 'c caller \<Rightarrow> event_create \<Rightarrow> 'c gateway
    \<Rightarrow> (exn + (event_row \<times> bool)) \<times> 'c gateway" where
  "submit P st e w1 w2 call c g =
     (case submit_start P e w1 c (gw_db g) of
        (Some out, db) \<Rightarrow> (out, g\<lparr>gw_db := db\<rparr>)
      | (None, db) \<Rightarrow>
          (let (res, cl) = call (trace e) (payload_of c) (gw_client g);
               (out, db') = after_call P st e c res (w2 db)
           in (out, g\<lparr>gw_db := db', gw_client := cl,
                    gw_metrics := count_queued st res out (gw_metrics g)\<rparr>)))"

section \<open>The routes\<close>

record event_response =
  er_event_id :: string
  er_account_id :: string
  er_type :: string
  er_amount :: money
  er_currency :: string
  er_timestamp :: datetime
  er_metadata :: "(string \<times> json) list option"
  er_status :: string
  er_created :: datetime
  er_updated :: datetime

fun status_value :: "proc_status \<Rightarrow> string" where
  "status_value PENDING = ''PENDING''"
| "status_value QUEUED = ''QUEUED''"
| "status_value APPLIED = ''APPLIED''"
| "status_value FAILED = ''FAILED''"

definition event_view :: "event_row \<Rightarrow> event_response" where
  "event_view ev = \<lparr>er_event_id = ev_id ev, er_account_id = ev_account ev, er_type = type_value (ev_type ev),
     er_amount = ev_amount ev, er_currency = ev_currency ev, er_timestamp = ev_timestamp ev,
     er_metadata = ev_metadata ev, er_status = status_value (ev_status ev), er_created = ev_created ev,
     er_updated = ev_updated ev\<rparr>"

definition submit_reply :: "event_row \<Rightarrow> bool \<Rightarrow> event_response reply" where
  "submit_reply ev created =
     (if created then
        \<lparr>rp_status = (if ev_status ev = QUEUED then 202 else 201),
         rp_headers = [(''Location'', ''/events/'' @ ev_id ev)], rp_body = event_view ev\<rparr>
      else \<lparr>rp_status = 200, rp_headers = [(''Idempotent-Replay'', ''true'')], rp_body = event_view ev\<rparr>)"

definition submit_event ::
  "platform \<Rightarrow> settings \<Rightarrow> env \<Rightarrow> others \<Rightarrow> others \<Rightarrow> 'c caller \<Rightarrow> event_create \<Rightarrow> 'c gateway
    \<Rightarrow> (exn + event_response reply) \<times> 'c gateway" where
  "submit_event P st e w1 w2 call c g = (case submit P st e w1 w2 call c g of
     (Inl err, g') \<Rightarrow> (Inl err, g')
   | (Inr (ev, created), g') \<Rightarrow> (Inr (submit_reply ev created), g'))"

definition event_not_found :: exn where
  "event_not_found = http_exception 404 ''EVENT_NOT_FOUND'' ''event not found''"

definition get_event_route :: "string \<Rightarrow> gw_db \<Rightarrow> exn + event_response" where
  "get_event_route k db = (case get_event k db of None \<Rightarrow> Inl event_not_found | Some ev \<Rightarrow> Inr (event_view ev))"

record event_list =
  el_account :: string
  el_items :: "event_response list"
  el_count :: nat
  el_limit :: int
  el_offset :: int

text \<open>\<open>GET /events\<close> with the constraints of its query parameters.\<close>

definition query_rejections :: "string \<Rightarrow> int \<Rightarrow> int \<Rightarrow> (string list \<times> violation) list" where
  "query_rejections account lmt off =
     (if length account < 1 then [([''query'', ''account''], TooShort 1)] else [])
     @ (if lmt < 1 then [([''query'', ''limit''], NotGreaterThan 0)] else [])
     @ (if 200 < lmt then [([''query'', ''limit''], TooLong 200)] else [])
     @ (if off < 0 then [([''query'', ''offset''], NotGreaterThan (- 1))] else [])"

definition list_events :: "platform \<Rightarrow> string \<Rightarrow> int \<Rightarrow> int \<Rightarrow> gw_db \<Rightarrow> exn + event_list" where
  "list_events P account lmt off db =
     (if query_rejections account lmt off \<noteq> [] then Inl (request_error P (query_rejections account lmt off))
      else (let items = list_for_account account (nat lmt) (nat off) db in
        Inr \<lparr>el_account = account, el_items = map event_view items, el_count = length items,
             el_limit = lmt, el_offset = off\<rparr>))"

text \<open>The balance proxy: the account service's status and JSON, or 503 when it is unavailable.\<close>

definition balance_proxy :: "call_result \<Rightarrow> exn + http_resp" where
  "balance_proxy res = (case res of
     Unavailable _ \<Rightarrow> Inl (HTTPException 503 (JObj [(''code'', JStr ''ACCOUNT_SERVICE_UNAVAILABLE''),
       (''message'', JStr ''Account information is temporarily unavailable''), (''retryable'', JBool True)]))
   | Crashed m \<Rightarrow> Inl (OtherException m)
   | Got r \<Rightarrow> (case rs_json r of None \<Rightarrow> Inl (OtherException ''JSONDecodeError'')
       | Some v \<Rightarrow> Inr (json_response (rs_status r) v)))"

section \<open>Commits of the handler, evaluated\<close>

lemma gw_commit_status:
  "gw_commit P [UpdEvent k s t] db = (case get_event k db of
     None \<Rightarrow> (Some StaleDataError, db)
   | Some _ \<Rightarrow> (None, db\<lparr>gd_events := map (\<lambda>r. if ev_id r = k then set_status P s t r else r) (gd_events db)\<rparr>))"
  by (auto simp: gw_commit_def upd_events_def get_event_def tupd_def split: option.splits)

lemma gw_commit_insert:
  "gw_commit P [InsEvent ev] db = (case get_event (ev_id ev) db of
     Some _ \<Rightarrow> (Some IntegrityError, db)
   | None \<Rightarrow> (None, db\<lparr>gd_events := gd_events db @ [stored_event P ev]\<rparr>))"
  by (auto simp: gw_commit_def upd_events_def get_event_def tins_def split: option.splits)

lemma get_event_map [simp]:
  "get_event j (db\<lparr>gd_events := map (\<lambda>r. if ev_id r = k then set_status P s t r else r) (gd_events db)\<rparr>) =
     (if j = k then map_option (set_status P s t) (get_event j db) else get_event j db)"
  by (simp add: get_event_def tget_map_upd)

lemma get_event_snoc [simp]:
  "get_event j (db\<lparr>gd_events := gd_events db @ [ev]\<rparr>) =
     (case get_event j db of Some r \<Rightarrow> Some r | None \<Rightarrow> if ev_id ev = j then Some ev else None)"
  by (auto simp: get_event_def tget_append tget_Cons split: option.splits)

lemma get_delivery_events [simp]:
  "get_delivery j (gd_events_update f db) = get_delivery j db"
  by (simp add: get_delivery_def)

text \<open>
  What the fallback branch commits: the status, the delivery and the audit record together, or, when
  the event is gone, nothing.
\<close>

definition queued_delivery :: "platform \<Rightarrow> env \<Rightarrow> event_create \<Rightarrow> gw_db \<Rightarrow> delivery" where
  "queued_delivery P e c db = (case get_delivery (ec_event_id c) db of
     Some d \<Rightarrow> set_requeued P (payload_of c) (trace e) (now e) d
   | None \<Rightarrow> stored_delivery P (new_delivery e (ec_event_id c) (ec_account_id c) (payload_of c) (trace e)))"

lemma submit_queued_spec:
  assumes "submit_queued P e c db = (out, db')"
  shows "(get_event (ec_event_id c) db = None \<and> out = Inl SQLAlchemyError \<and> db' = db)
    \<or> (\<exists>ev. get_event (ec_event_id c) db = Some ev
        \<and> out = Inr (set_status P QUEUED (now e) ev, True)
        \<and> (\<forall>k. get_event k db' = (if k = ec_event_id c then Some (set_status P QUEUED (now e) ev) else get_event k db))
        \<and> (\<forall>k. get_delivery k db' = (if k = ec_event_id c then Some (queued_delivery P e c db) else get_delivery k db)))"
proof (cases "get_event (ec_event_id c) db")
  case None
  with assms show ?thesis
    by (auto simp: submit_queued_def gw_commit_def upd_events_def get_event_def tupd_def)
next
  case (Some ev)
  let ?k = "ec_event_id c"
  obtain db1 where 1: "gw_exec P (UpdEvent ?k QUEUED (now e)) db = Inr db1"
    using Some by (auto simp: upd_events_def get_event_def tupd_def)
  have d1: "get_delivery j db1 = get_delivery j db" for j
    using get_delivery_exec [OF 1] by simp
  obtain db2 where 2: "gw_exec P (enqueue e ?k (ec_account_id c) (payload_of c) (trace e) db) db1 = Inr db2"
    using d1 [of ?k] by (cases "get_delivery ?k db")
      (auto simp: enqueue_def upd_deliveries_def get_delivery_def tupd_def tins_def split: option.splits)
  obtain db3 where 3: "gw_exec P (GwAudit (new_audit e ''EVENT_QUEUED'' ''QUEUED'' ?k (ec_account_id c)
      (Some [(''reason'', DText ''account service unavailable'')]))) db2 = Inr db3" by simp
  from 1 2 3 assms have out: "out = committed_event ?k db3" "db' = db3"
    by (auto simp: submit_queued_def gw_commit_def)
  have "get_event j db3 = (if j = ?k then Some (set_status P QUEUED (now e) ev) else get_event j db)" for j
    using get_event_exec [OF 1, of j] get_event_exec [OF 2, of j] get_event_exec [OF 3, of j] Some
    by (auto simp: enqueue_def split: option.splits)
  moreover have "get_delivery j db3 = (if j = ?k then Some (queued_delivery P e c db) else get_delivery j db)" for j
    using d1 [of j] get_delivery_exec [OF 2, of j] get_delivery_exec [OF 3, of j]
    by (auto simp: enqueue_def queued_delivery_def split: option.splits)
  ultimately show ?thesis using Some out by (auto simp: committed_event_def)
qed

section \<open>The outcome of a call\<close>

text \<open>The status an event ends with, and the answer, for each result of the call.\<close>

definition final_status :: "settings \<Rightarrow> call_result \<Rightarrow> proc_status" where
  "final_status st res = (case res of
     Got r \<Rightarrow> if 400 \<le> rs_status r then FAILED else APPLIED
   | Unavailable _ \<Rightarrow> if st_fallback_enabled st then QUEUED else FAILED
   | Crashed _ \<Rightarrow> PENDING)"

definition relayed_error :: "response \<Rightarrow> exn" where
  "relayed_error r = (case downstream_detail r of Inl err \<Rightarrow> err | Inr d \<Rightarrow> downstream_error (rs_status r) d)"

definition final_answer :: "settings \<Rightarrow> call_result \<Rightarrow> event_row \<Rightarrow> exn + (event_row \<times> bool)" where
  "final_answer st res ev = (case res of
     Got r \<Rightarrow> if 400 \<le> rs_status r then Inl (relayed_error r) else Inr (ev, True)
   | Unavailable _ \<Rightarrow> if st_fallback_enabled st then Inr (ev, True) else Inl fallback_unavailable
   | Crashed m \<Rightarrow> Inl (OtherException m))"

definition touched :: "platform \<Rightarrow> env \<Rightarrow> call_result \<Rightarrow> proc_status \<Rightarrow> event_row \<Rightarrow> event_row" where
  "touched P e res s ev = (case res of Crashed _ \<Rightarrow> ev | _ \<Rightarrow> set_status P s (now e) ev)"

lemma after_call_spec:
  assumes "after_call P st e c res db = (out, db')" and "get_event (ec_event_id c) db = Some ev"
  shows "out = final_answer st res (touched P e res (final_status st res) ev)
    \<and> (\<forall>k. get_event k db' = (if k = ec_event_id c then Some (touched P e res (final_status st res) ev) else get_event k db))
    \<and> (\<forall>k. get_delivery k db' = (if k = ec_event_id c \<and> final_status st res = QUEUED
          then Some (queued_delivery P e c db) else get_delivery k db))"
proof (cases res)
  case (Got r)
  with assms show ?thesis
    by (auto simp: after_call_def submit_rejected_def submit_applied_def gw_commit_status final_answer_def
        final_status_def touched_def relayed_error_def committed_event_def split: sum.splits if_splits)
next
  case (Unavailable m)
  show ?thesis
  proof (cases "st_fallback_enabled st")
    case True
    with Unavailable assms(1) have "submit_queued P e c db = (out, db')" by (simp add: after_call_def)
    from submit_queued_spec [OF this] assms(2) Unavailable True show ?thesis
      by (auto simp: final_answer_def final_status_def touched_def)
  next
    case False
    with Unavailable assms show ?thesis
      by (auto simp: after_call_def submit_unavailable_def gw_commit_status final_answer_def
          final_status_def touched_def)
  qed
next
  case (Crashed m)
  with assms show ?thesis
    by (auto simp: after_call_def final_answer_def final_status_def touched_def)
qed

lemma after_call_gone:
  assumes "after_call P st e c res db = (out, db')" and "get_event (ec_event_id c) db = None"
  shows "db' = db"
  using assms submit_queued_spec [where P = P and e = e and c = c and db = db and out = out and db' = db']
  by (auto simp: after_call_def submit_rejected_def submit_applied_def submit_unavailable_def gw_commit_status
      split: call_result.splits if_splits)

section \<open>submit, case by case\<close>

text \<open>Other sessions that leave one event and its delivery alone.\<close>

definition spares :: "string \<Rightarrow> others \<Rightarrow> bool" where
  "spares k w \<longleftrightarrow> (\<forall>db. get_event k (w db) = get_event k db \<and> get_delivery k (w db) = get_delivery k db)"

lemma spares_id [simp]: "spares k id"
  by (simp add: spares_def)

text \<open>The answer to an event id that is taken.\<close>

definition known_answer :: "string \<Rightarrow> event_row \<Rightarrow> event_create \<Rightarrow> exn + (event_row \<times> bool)" where
  "known_answer message ev c = (if same_event ev c then Inr (ev, False) else Inl (conflict message))"

definition same_tables :: "gw_db \<Rightarrow> gw_db \<Rightarrow> bool" where
  "same_tables db db' \<longleftrightarrow> gd_events db' = gd_events db \<and> gd_deliveries db' = gd_deliveries db"

lemma same_tablesD: "same_tables db db' \<Longrightarrow> get_event k db' = get_event k db \<and> get_delivery k db' = get_delivery k db"
  by (simp add: same_tables_def get_event_def get_delivery_def)

lemma submit_start_known:
  assumes "get_event (ec_event_id c) db = Some ev"
  shows "fst (submit_start P e w1 c db) = Some (known_answer ''eventId already exists with different event data'' ev c)
    \<and> same_tables db (snd (submit_start P e w1 c db))"
  using assms by (simp add: submit_start_def known_answer_def event_conflict_def event_replay_def same_tables_def)

lemma submit_start_raced:
  assumes "get_event (ec_event_id c) db = None" and "get_event (ec_event_id c) (w1 db) = Some ev"
  shows "fst (submit_start P e w1 c db) = Some (known_answer ''eventId already exists'' ev c)
    \<and> same_tables (w1 db) (snd (submit_start P e w1 c db))"
proof -
  have "ev_id (new_event e c) = ec_event_id c" by (simp add: new_event_def)
  with assms show ?thesis
    by (simp add: submit_start_def known_answer_def event_conflict_def event_replay_def same_tables_def
        gw_commit_insert)
qed

lemma submit_start_new:
  assumes "get_event (ec_event_id c) db = None" and "get_event (ec_event_id c) (w1 db) = None"
  shows "fst (submit_start P e w1 c db) = None
    \<and> (\<forall>k. get_event k (snd (submit_start P e w1 c db)) =
          (if k = ec_event_id c then Some (stored_event P (new_event e c)) else get_event k (w1 db)))
    \<and> (\<forall>k. get_delivery k (snd (submit_start P e w1 c db)) = get_delivery k (w1 db))"
proof -
  have "ev_id (new_event e c) = ec_event_id c" by (simp add: new_event_def)
  with assms show ?thesis
    by (auto simp: submit_start_def gw_commit_insert split: option.splits)
qed

lemma submit_new:
  assumes "get_event (ec_event_id c) (gw_db g) = None"
    and "spares (ec_event_id c) w1" and "spares (ec_event_id c) w2"
    and "call (trace e) (payload_of c) (gw_client g) = (res, cl)"
    and "submit P st e w1 w2 call c g = (out, g')"
  shows "gw_client g' = cl
    \<and> get_event (ec_event_id c) (gw_db g') =
        Some (touched P e res (final_status st res) (stored_event P (new_event e c)))
    \<and> out = final_answer st res (touched P e res (final_status st res) (stored_event P (new_event e c)))
    \<and> get_delivery (ec_event_id c) (gw_db g') = (if final_status st res = QUEUED
        then Some (queued_delivery P e c (gw_db g)) else get_delivery (ec_event_id c) (gw_db g))"
proof -
  let ?k = "ec_event_id c" let ?ev = "stored_event P (new_event e c)"
  obtain db1 where start: "submit_start P e w1 c (gw_db g) = (None, db1)"
    "get_event ?k db1 = Some ?ev" "get_delivery ?k db1 = get_delivery ?k (gw_db g)"
    using submit_start_new [of c "gw_db g" w1 P e] assms(1,2)
    by (cases "submit_start P e w1 c (gw_db g)") (auto simp: spares_def)
  obtain db' where after: "after_call P st e c res (w2 db1) = (out, db')" "gw_client g' = cl" "gw_db g' = db'"
    using assms(4,5) start(1) by (auto simp: submit_def split: prod.splits)
  have "get_event ?k (w2 db1) = Some ?ev" "get_delivery ?k (w2 db1) = get_delivery ?k (gw_db g)"
    using start assms(3) by (auto simp: spares_def)
  with after_call_spec [OF after(1)] after(2,3) show ?thesis
    by (simp add: queued_delivery_def)
qed

section \<open>Properties of submit\<close>

text \<open>
  C7. A new event is stored as \<open>PENDING\<close> with the data of the request before the account service
  is called, and ends according to the result of that one call: an answer below 400 makes it
  \<open>APPLIED\<close> (201), another answer \<open>FAILED\<close> with the downstream status and error relayed, an
  unavailable account service \<open>QUEUED\<close> with a delivery that carries the request's payload (202), or
  without the fallback \<open>FAILED\<close> (503); a crash of the call leaves it \<open>PENDING\<close> and propagates.
  Nothing but the status and the update time of the stored row changes, and there is a delivery
  exactly when the event is \<open>QUEUED\<close>.
\<close>

theorem new_event_outcome:
  assumes "get_event (ec_event_id c) (gw_db g) = None" and "get_delivery (ec_event_id c) (gw_db g) = None"
    and "spares (ec_event_id c) w1" and "spares (ec_event_id c) w2"
    and "call (trace e) (payload_of c) (gw_client g) = (res, cl)"
    and "submit P st e w1 w2 call c g = (out, g')"
  shows "gw_client g' = cl \<and> (\<exists>ev. get_event (ec_event_id c) (gw_db g') = Some ev
    \<and> ev\<lparr>ev_status := PENDING, ev_updated := ts_col P (now e)\<rparr> = stored_event P (new_event e c)
    \<and> (case res of
         Got r \<Rightarrow> if rs_status r < 400
           then ev_status ev = APPLIED \<and> out = Inr (ev, True)
           else ev_status ev = FAILED \<and> out = Inl (relayed_error r)
       | Unavailable _ \<Rightarrow> if st_fallback_enabled st
           then ev_status ev = QUEUED \<and> out = Inr (ev, True)
           else ev_status ev = FAILED \<and> out = Inl fallback_unavailable
       | Crashed m \<Rightarrow> ev_status ev = PENDING \<and> out = Inl (OtherException m))
    \<and> get_delivery (ec_event_id c) (gw_db g') = (if ev_status ev = QUEUED
        then Some (stored_delivery P (new_delivery e (ec_event_id c) (ec_account_id c) (payload_of c) (trace e)))
        else None))"
proof -
  let ?ev = "touched P e res (final_status st res) (stored_event P (new_event e c))"
  show ?thesis
    using submit_new [OF assms(1,3-6)] assms(2)
    by (intro conjI exI [of _ ?ev])
      (auto simp: touched_def final_status_def final_answer_def set_status_def stored_event_def new_event_def
        queued_delivery_def split: call_result.splits)
qed

definition sample_env :: env where
  "sample_env = \<lparr>now = utc 1000, trace = ''trace-1''\<rparr>"

definition fresh_gateway :: "'c \<Rightarrow> 'c gateway" where
  "fresh_gateway cl = \<lparr>gw_db = empty_gw_db, gw_client = cl,
     gw_metrics = \<lparr>m_queued = 0, m_processed = 0, m_retried = 0, m_failed = 0, m_depth = 0\<rparr>\<rparr>"

lemma fresh_gateway_sel [simp]:
  "gw_client (fresh_gateway cl) = cl" "get_event k (gw_db (fresh_gateway cl)) = None"
  "get_delivery k (gw_db (fresh_gateway cl)) = None"
  by (simp_all add: fresh_gateway_def empty_gw_db_def get_event_def get_delivery_def)

theorem new_event_outcome_witness:
  "\<exists>ev. get_event ''evt-1'' (gw_db (snd (submit exact_platform default_settings sample_env id id
      (\<lambda>tid p n. (Unavailable ''timeout'', Suc n)) sample_event (fresh_gateway 0)))) = Some ev \<and> ev_status ev = QUEUED"
proof -
  have "ec_event_id sample_event = ''evt-1''" by (simp add: sample_event_def)
  moreover obtain out g' where eq: "submit exact_platform default_settings sample_env id id
      (\<lambda>tid p n. (Unavailable ''timeout'', Suc n)) sample_event (fresh_gateway 0) = (out, g')" by fastforce
  ultimately show ?thesis
    using new_event_outcome [OF _ _ _ _ _ eq, of "Unavailable ''timeout''" 1] by auto
qed

text \<open>
  C12. An event id that is already stored never reaches the account service again, whatever became of
  the first submission: the client is not called, no event, delivery or metric changes, and the
  answer is 200 with \<open>Idempotent-Replay\<close> and the stored event when the request has the same data, or
  409 \<open>EVENT_ID_CONFLICT\<close> when it differs.
\<close>

theorem known_event_never_resent:
  assumes "get_event (ec_event_id c) (gw_db g) = Some ev"
    and "submit_event P st e w1 w2 call c g = (out, g')"
  shows "gw_client g' = gw_client g \<and> gw_metrics g' = gw_metrics g
    \<and> gd_events (gw_db g') = gd_events (gw_db g) \<and> gd_deliveries (gw_db g') = gd_deliveries (gw_db g)
    \<and> out = (if same_event ev c
        then Inr \<lparr>rp_status = 200, rp_headers = [(''Idempotent-Replay'', ''true'')], rp_body = event_view ev\<rparr>
        else Inl (HTTPException 409 (JObj [(''code'', JStr ''EVENT_ID_CONFLICT''),
          (''message'', JStr ''eventId already exists with different event data'')])))"
proof (cases "submit_start P e w1 c (gw_db g)")
  case (Pair r db)
  with submit_start_known [OF assms(1), of P e w1] assms(2) show ?thesis
    by (auto simp: submit_event_def submit_def known_answer_def same_tables_def submit_reply_def conflict_def
        http_exception_def split: if_splits)
qed

text \<open>A gateway that holds one event, for the witnesses.\<close>

definition one_event :: "event_create \<Rightarrow> 'c \<Rightarrow> 'c gateway" where
  "one_event c cl = (fresh_gateway cl)\<lparr>gw_db := empty_gw_db\<lparr>gd_events := [new_event sample_env c]\<rparr>\<rparr>"

lemma one_event_get [simp]: "get_event (ec_event_id c) (gw_db (one_event c cl)) = Some (new_event sample_env c)"
  by (simp add: one_event_def get_event_def tget_Cons new_event_def)

theorem known_event_never_resent_witness:
  "gw_client (snd (submit_event exact_platform default_settings sample_env id id (\<lambda>tid p n. (Crashed ''x'', Suc n))
     sample_event (one_event sample_event 7))) = 7"
proof -
  obtain out g' where eq: "submit_event exact_platform default_settings sample_env id id
    (\<lambda>tid p n. (Crashed ''x'', Suc n)) sample_event (one_event sample_event 7) = (out, g')" by fastforce
  from known_event_never_resent [OF one_event_get eq] eq show ?thesis by (simp add: one_event_def)
qed

text \<open>
  The data of a request survive storing it. \<open>replayable\<close> collects what that needs: valid fields,
  metadata as decoded from JSON and not the empty object, columns that keep the amount and the instant.
\<close>

definition replayable :: "platform \<Rightarrow> event_create \<Rightarrow> bool" where
  "replayable P c \<longleftrightarrow> event_ok c \<and> num_exact P (10 ^ 19) \<and> ts_exact P (ec_timestamp c)
     \<and> ec_metadata c \<noteq> Some [] \<and> (case ec_metadata c of None \<Rightarrow> True | Some md \<Rightarrow> wf_json (JObj md))"

lemma same_event_stored:
  assumes "replayable P c"
  shows "same_event (touched P e res s (stored_event P (new_event e c))) c"
proof -
  from assms have amount: "num_col P (ec_amount c) = ec_amount c"
    by (auto simp: replayable_def event_ok_def num_exact_def)
  from assms have ts: "utc_naive (ts_col P (ec_timestamp c)) = utc_naive (ec_timestamp c)"
    by (auto simp: replayable_def ts_exact_def utc_naive_eq_iff)
  have md: "metadata_eq (ec_metadata c) (ec_metadata c)"
  proof (cases "ec_metadata c")
    case None
    then show ?thesis by (simp add: metadata_eq_def)
  next
    case (Some md)
    with assms have "wf_json (JObj md)" "md \<noteq> []" by (auto simp: replayable_def)
    then have "py_eq (JObj md) (JObj md)" by (intro py_eq_refl)
    with Some \<open>md \<noteq> []\<close> show ?thesis by (cases md) (auto simp: metadata_eq_def)
  qed
  from amount ts md show ?thesis
    by (cases res) (simp_all add: touched_def same_event_def new_event_def set_status_def stored_event_def)
qed



text \<open>
  A request with the empty metadata object is not idempotent: the comparison reads the stored
  \<open>{}\<close> as no metadata and the request's \<open>{}\<close> as metadata, so that submitting the very same request
  again is refused with 409, whatever the platform and the first call.
\<close>

lemma empty_metadata_conflicts:
  assumes "ec_metadata c = Some []" and "get_event (ec_event_id c) (gw_db g) = None"
    and "submit_event P st e id id call c g = (out, g1)"
    and "submit_event P st e' id id call' c g1 = (out', g2)"
  shows "out' = Inl (conflict ''eventId already exists with different event data'')"
proof -
  obtain res cl where call: "call (trace e) (payload_of c) (gw_client g) = (res, cl)" by fastforce
  obtain out0 where sub: "submit P st e id id call c g = (out0, g1)"
    using assms(3) by (auto simp: submit_event_def split: prod.splits sum.splits)
  let ?ev = "touched P e res (final_status st res) (stored_event P (new_event e c))"
  have ev: "get_event (ec_event_id c) (gw_db g1) = Some ?ev"
    using submit_new [of c g id id call e res cl P st out0 g1, OF assms(2) _ _ call sub] by simp
  have "\<not> same_event ?ev c"
    using assms(1) by (cases res) (auto simp: same_event_def metadata_eq_def touched_def new_event_def)
  with submit_start_known [OF ev, of P e' id] assms(4) show ?thesis
    by (cases "submit_start P e' id c (gw_db g1)") (auto simp: submit_event_def submit_def known_answer_def)
qed

section \<open>Listing\<close>

text \<open>The events of an account in the order of the listing.\<close>

definition account_events :: "string \<Rightarrow> gw_db \<Rightarrow> event_row list" where
  "account_events acc db = list_for_account acc (length (gd_events db)) 0 db"

lemma account_events_eq:
  "account_events acc db = sort_key (\<lambda>ev. (instant (ev_timestamp ev), ev_id ev))
     (filter (\<lambda>ev. ev_account ev = acc) (gd_events db))"
  by (simp add: account_events_def list_for_account_def)

text \<open>
  C38. \<open>GET /events\<close> with accepted parameters returns one page of the account's events, each event
  of the account once, oldest event time first and by event id at equal times, in whatever order the
  events arrived.
\<close>

theorem list_events_ordered:
  assumes "list_events P acc lmt off db = Inr page"
  shows "el_items page = take (nat lmt) (drop (nat off) (map event_view (account_events acc db)))
    \<and> el_count page = length (el_items page) \<and> 0 < lmt \<and> lmt \<le> 200 \<and> 0 \<le> off
    \<and> sorted (map (\<lambda>ev. (instant (ev_timestamp ev), ev_id ev)) (account_events acc db))
    \<and> mset (account_events acc db) = filter_mset (\<lambda>ev. ev_account ev = acc) (mset (gd_events db))"
  using assms
  by (auto simp: list_events_def account_events_eq list_for_account_def query_rejections_def Let_def
      take_map drop_map split: if_splits)

theorem list_events_ordered_witness:
  "\<exists>page. list_events exact_platform ''acct-1'' 50 0 (gw_db (one_event sample_event (7::nat))) = Inr page
     \<and> el_count page = length (el_items page)"
proof -
  obtain page where eq: "list_events exact_platform ''acct-1'' 50 0 (gw_db (one_event sample_event (7::nat))) = Inr page"
    by (simp add: list_events_def query_rejections_def Let_def)
  with list_events_ordered [OF eq] show ?thesis by blast
qed

end
