(* ===== verification/AsyncFallback.thy ===== *)
theory AsyncFallback
  imports EventService
begin

text \<open>
  The background worker of the fallback queue (\<open>event-gateway/app/services/async_fallback.py\<close>):
  \<open>_backoff_seconds\<close>, \<open>_process_event\<close>, \<open>process_once\<close> and \<open>run\<close>.

  A \<open>tick\<close> is what one step reads from its surroundings: clock, fresh trace id, jitter, and what
  other sessions commit while the delivery is awaited. An exception leaves \<open>process_once\<close> and is
  swallowed by \<open>run\<close>, as in the source.
\<close>

record tick =
  tk_env :: env
  tk_fresh :: string
  tk_jitter :: rat
  tk_others :: others

definition backoff_seconds :: "settings \<Rightarrow> int \<Rightarrow> rat \<Rightarrow> rat" where
  "backoff_seconds st attempt_count jitter =
     (let exponent = max 0 (min (attempt_count - 1) 16);
          base = st_base_backoff st * 2 ^ nat exponent;
          bounded = min base (st_max_backoff st)
      in bounded + jitter)"

definition retry_writes :: "settings \<Rightarrow> env \<Rightarrow> rat \<Rightarrow> delivery \<Rightarrow> event_row \<Rightarrow> string \<Rightarrow> gw_write list" where
  "retry_writes st e jitter d ev err =
     (let n = pd_attempts d + 1; nxt = plus_seconds (now e) (backoff_seconds st n jitter)
      in [Reschedule (pd_event_id d) n err nxt (now e),
          GwAudit (new_audit e ''EVENT_QUEUE_RETRY_SCHEDULED'' ''RETRY'' (ev_id ev) (ev_account ev)
            (Some [(''attempt'', DInt n), (''nextAttemptAt'', DTime nxt)]))])"

definition reject_writes :: "env \<Rightarrow> delivery \<Rightarrow> event_row \<Rightarrow> int \<Rightarrow> gw_write list" where
  "reject_writes e d ev st =
     [UpdEvent (ev_id ev) FAILED (now e), DelDelivery (pd_event_id d),
      GwAudit (new_audit e ''EVENT_QUEUE_REJECTED'' ''FAILURE'' (ev_id ev) (ev_account ev)
        (Some [(''downstreamStatus'', DInt st)]))]"

definition apply_writes :: "env \<Rightarrow> delivery \<Rightarrow> event_row \<Rightarrow> gw_write list" where
  "apply_writes e d ev =
     [UpdEvent (ev_id ev) APPLIED (now e), DelDelivery (pd_event_id d),
      GwAudit (new_audit e ''EVENT_APPLIED_FROM_QUEUE'' ''SUCCESS'' (ev_id ev) (ev_account ev)
        (Some [(''attempts'', DInt (pd_attempts d + 1))]))]"

text \<open>One commit, answered with a value or, when the commit is refused, the database error.\<close>

definition commit_then :: "platform \<Rightarrow> gw_write list \<Rightarrow> 'a \<Rightarrow> gw_db \<Rightarrow> (exn + 'a) \<times> gw_db" where
  "commit_then P ws v db = (case gw_commit P ws db of
     (Some _, db') \<Rightarrow> (Inl SQLAlchemyError, db') | (None, db') \<Rightarrow> (Inr v, db'))"

definition after_delivery :: "platform \<Rightarrow> settings \<Rightarrow> env \<Rightarrow> rat \<Rightarrow> delivery \<Rightarrow> event_row \<Rightarrow> call_result \<Rightarrow> gw_db
    \<Rightarrow> (exn + bool) \<times> gw_db" where
  "after_delivery P st e jitter d ev res db = (case res of
     Unavailable err \<Rightarrow> commit_then P (retry_writes st e jitter d ev err) False db
   | Got r \<Rightarrow> if 400 \<le> rs_status r then commit_then P (reject_writes e d ev (rs_status r)) True db
       else commit_then P (apply_writes e d ev) True db
   | Crashed m \<Rightarrow> (Inl (OtherException m), db))"

definition count_delivery :: "call_result \<Rightarrow> exn + bool \<Rightarrow> metrics \<Rightarrow> metrics" where
  "count_delivery res out m = (case out of Inl _ \<Rightarrow> m
   | Inr _ \<Rightarrow> (case res of
       Unavailable _ \<Rightarrow> m\<lparr>m_retried := Suc (m_retried m)\<rparr>
     | Got r \<Rightarrow> if 400 \<le> rs_status r then m\<lparr>m_failed := Suc (m_failed m)\<rparr>
         else m\<lparr>m_processed := Suc (m_processed m)\<rparr>
     | Crashed _ \<Rightarrow> m))"

definition process_event :: "platform \<Rightarrow> settings \<Rightarrow> tick \<Rightarrow> 'c caller \<Rightarrow> string \<Rightarrow> 'c gateway
    \<Rightarrow> (exn + bool) \<times> 'c gateway" where
  "process_event P st tk call k g =
     (case get_delivery k (gw_db g) of
        None \<Rightarrow> (Inr False, g)
      | Some d \<Rightarrow>
          (case get_event k (gw_db g) of
             None \<Rightarrow> (let (out, db) = commit_then P [DelDelivery k] False (gw_db g) in (out, g\<lparr>gw_db := db\<rparr>))
           | Some ev \<Rightarrow>
               (let e = (tk_env tk)\<lparr>trace := normalize_trace_id (tk_fresh tk) (Some (pd_trace d))\<rparr>;
                    (res, cl) = call (trace e) (pd_payload d) (gw_client g);
                    (out, db) = after_delivery P st e (tk_jitter tk) d ev res (tk_others tk (gw_db g))
                in (out, g\<lparr>gw_db := db, gw_client := cl, gw_metrics := count_delivery res out (gw_metrics g)\<rparr>))))"

fun process_all :: "platform \<Rightarrow> settings \<Rightarrow> (nat \<Rightarrow> tick) \<Rightarrow> 'c caller \<Rightarrow> string list \<Rightarrow> nat \<Rightarrow> nat \<Rightarrow> 'c gateway
    \<Rightarrow> (exn + nat) \<times> 'c gateway" where
  "process_all P st tks call [] i processed g = (Inr processed, g)"
| "process_all P st tks call (k # ks) i processed g =
     (case process_event P st (tks i) call k g of
        (Inl err, g') \<Rightarrow> (Inl err, g')
      | (Inr done, g') \<Rightarrow> process_all P st tks call ks (Suc i) (if done then Suc processed else processed) g')"

definition set_depth :: "'c gateway \<Rightarrow> 'c gateway" where
  "set_depth g = g\<lparr>gw_metrics := (gw_metrics g)\<lparr>m_depth := delivery_count (gw_db g)\<rparr>\<rparr>"

definition process_once :: "platform \<Rightarrow> settings \<Rightarrow> datetime \<Rightarrow> (nat \<Rightarrow> tick) \<Rightarrow> 'c caller \<Rightarrow> 'c gateway
    \<Rightarrow> (exn + nat) \<times> 'c gateway" where
  "process_once P st t tks call g =
     (let event_ids = due_event_ids (st_batch_size st) t (gw_db g)
      in case process_all P st tks call event_ids 0 0 (set_depth g) of
           (Inl err, g') \<Rightarrow> (Inl err, g')
         | (Inr processed, g') \<Rightarrow> (Inr processed, set_depth g'))"

text \<open>
  \<open>run\<close>: one iteration for each poll until the stop event is set; an exception of an iteration is
  logged and the loop goes on.
\<close>

fun worker_run :: "platform \<Rightarrow> settings \<Rightarrow> 'c caller \<Rightarrow> (datetime \<times> (nat \<Rightarrow> tick)) list \<Rightarrow> 'c gateway \<Rightarrow> 'c gateway" where
  "worker_run P st call [] g = g"
| "worker_run P st call ((t, tks) # polls) g = worker_run P st call polls (snd (process_once P st t tks call g))"

section \<open>The backoff\<close>

text \<open>
  The pause before the next attempt doubles with every failed attempt until it reaches
  \<open>max_backoff\<close>, and stays there: it is \<open>base * 2 ^ (n - 1)\<close> seconds while that is at most the bound
  (and \<open>n \<le> 17\<close>), never more than the bound, never shorter after more attempts; the jitter comes on top.
\<close>

theorem backoff_doubles_to_bound:
  assumes "0 \<le> st_base_backoff st" and "1 \<le> n"
  shows "(n \<le> 17 \<longrightarrow> st_base_backoff st * 2 ^ nat (n - 1) \<le> st_max_backoff st
        \<longrightarrow> backoff_seconds st n j = st_base_backoff st * 2 ^ nat (n - 1) + j)
    \<and> backoff_seconds st n j \<le> st_max_backoff st + j
    \<and> min (st_base_backoff st) (st_max_backoff st) + j \<le> backoff_seconds st n j
    \<and> backoff_seconds st n j \<le> backoff_seconds st (n + 1) j"
proof -
  have mono: "st_base_backoff st * 2 ^ a \<le> st_base_backoff st * 2 ^ b" if "a \<le> b" for a b :: nat
    using assms(1) that by (intro mult_left_mono) (auto intro: power_increasing)
  have "st_base_backoff st \<le> st_base_backoff st * 2 ^ b" for b
    using mono [of 0 b] by simp
  moreover have "nat (max 0 (min (n - 1) 16)) \<le> nat (max 0 (min (n + 1 - 1) 16))" by auto
  note mono [OF this]
  moreover have "n \<le> 17 \<Longrightarrow> max 0 (min (n - 1) 16) = n - 1" using assms(2) by auto
  ultimately show ?thesis
    by (auto simp: backoff_seconds_def Let_def intro: min.mono min.coboundedI1)
qed

theorem backoff_doubles_to_bound_witness:
  "map (\<lambda>n. backoff_seconds default_settings n 0) [1, 2, 6, 7, 40] = [1, 2, 32, 60, 60]
   \<and> backoff_seconds default_settings 40 0 \<le> 60"
proof
  show "map (\<lambda>n. backoff_seconds default_settings n 0) [1, 2, 6, 7, 40] = [1, 2, 32, 60, 60]"
    by (simp add: backoff_seconds_def Let_def)
  show "backoff_seconds default_settings 40 0 \<le> 60"
    using backoff_doubles_to_bound [of default_settings 40 0] by simp
qed

section \<open>The commits of the worker, evaluated\<close>

lemma get_event_Some_id: "get_event k db = Some ev \<Longrightarrow> ev_id ev = k"
  unfolding get_event_def by (drule tget_Some) simp

lemma get_delivery_Some_id: "get_delivery k db = Some d \<Longrightarrow> pd_event_id d = k"
  unfolding get_delivery_def by (drule tget_Some) simp

definition settle :: "platform \<Rightarrow> proc_status \<Rightarrow> datetime \<Rightarrow> string \<Rightarrow> audit \<Rightarrow> gw_db \<Rightarrow> gw_db" where
  "settle P s t k a db = db\<lparr>gd_events := map (\<lambda>r. if ev_id r = k then set_status P s t r else r) (gd_events db),
     gd_deliveries := tdel pd_event_id k (gd_deliveries db), gd_audits := insert_audit P a (gd_audits db)\<rparr>"

lemma gw_commit_settle:
  "gw_commit P [UpdEvent k s t, DelDelivery k, GwAudit a] db = (case get_event k db of
     None \<Rightarrow> (Some StaleDataError, db) | Some _ \<Rightarrow> (None, settle P s t k a db))"
  by (auto simp: gw_commit_def upd_events_def get_event_def tupd_def settle_def split: option.splits)

lemma settle_lookup [simp]:
  "get_event j (settle P s t k a db) =
     (if j = k then map_option (set_status P s t) (get_event j db) else get_event j db)"
  "get_delivery j (settle P s t k a db) = (if j = k then None else get_delivery j db)"
  "gd_deliveries (settle P s t k a db) = tdel pd_event_id k (gd_deliveries db)"
  by (simp_all add: settle_def get_event_def get_delivery_def tget_map_upd tget_tdel)

definition postpone :: "platform \<Rightarrow> int \<Rightarrow> string \<Rightarrow> datetime \<Rightarrow> datetime \<Rightarrow> string \<Rightarrow> audit \<Rightarrow> gw_db \<Rightarrow> gw_db" where
  "postpone P n err nx t k a db = db\<lparr>
     gd_deliveries := map (\<lambda>r. if pd_event_id r = k then set_rescheduled P n err nx t r else r) (gd_deliveries db),
     gd_audits := insert_audit P a (gd_audits db)\<rparr>"

lemma gw_commit_postpone:
  "gw_commit P [Reschedule k n err nx t, GwAudit a] db = (case get_delivery k db of
     None \<Rightarrow> (Some StaleDataError, db) | Some _ \<Rightarrow> (None, postpone P n err nx t k a db))"
  by (auto simp: gw_commit_def upd_deliveries_def get_delivery_def tupd_def postpone_def split: option.splits)

lemma postpone_lookup [simp]:
  "get_event j (postpone P n err nx t k a db) = get_event j db"
  "get_delivery j (postpone P n err nx t k a db) =
     (if j = k then map_option (set_rescheduled P n err nx t) (get_delivery j db) else get_delivery j db)"
  by (simp_all add: postpone_def get_event_def get_delivery_def tget_map_upd)

lemma after_delivery_spec:
  assumes "after_delivery P st e j d ev res db = (out, db')" and "ev_id ev = k" and "pd_event_id d = k"
  shows "case res of
      Got r \<Rightarrow> (if get_event k db = None then out = Inl SQLAlchemyError \<and> db' = db
        else out = Inr True \<and> (\<exists>a. db' = settle P (if 400 \<le> rs_status r then FAILED else APPLIED) (now e) k a db))
    | Unavailable err \<Rightarrow> (if get_delivery k db = None then out = Inl SQLAlchemyError \<and> db' = db
        else out = Inr False \<and> (\<exists>a. db' = postpone P (pd_attempts d + 1) err
            (plus_seconds (now e) (backoff_seconds st (pd_attempts d + 1) j)) (now e) k a db))
    | Crashed m \<Rightarrow> out = Inl (OtherException m) \<and> db' = db"
  using assms
  by (cases res) (auto simp: after_delivery_def commit_then_def retry_writes_def reject_writes_def apply_writes_def
      Let_def gw_commit_settle gw_commit_postpone split: option.splits if_splits)

section \<open>One delivery\<close>

text \<open>
  C15. One delivery of a queued event sends the stored payload under the delivery's trace id once, and
  commits the outcome in one step: an answer below 400 makes the event \<open>APPLIED\<close> and removes the
  delivery, another answer makes it \<open>FAILED\<close> and removes the delivery, an unavailable account service
  leaves the event as it is, counts the attempt, remembers the error and puts the next attempt after
  the backoff; a crash of the call changes nothing and propagates.
\<close>

theorem process_event_outcome:
  assumes "get_delivery k (gw_db g) = Some d" and "get_event k (gw_db g) = Some ev"
    and "spares k (tk_others tk)"
    and "call (normalize_trace_id (tk_fresh tk) (Some (pd_trace d))) (pd_payload d) (gw_client g) = (res, cl)"
    and "process_event P st tk call k g = (out, g')"
  shows "gw_client g' = cl \<and> (case res of
      Got r \<Rightarrow> out = Inr True \<and> get_delivery k (gw_db g') = None
        \<and> get_event k (gw_db g') =
            Some (set_status P (if rs_status r < 400 then APPLIED else FAILED) (now (tk_env tk)) ev)
    | Unavailable err \<Rightarrow> out = Inr False \<and> get_event k (gw_db g') = Some ev
        \<and> get_delivery k (gw_db g') = Some (d\<lparr>pd_attempts := pd_attempts d + 1, pd_last_error := Some err,
            pd_next := ts_col P (plus_seconds (now (tk_env tk)) (backoff_seconds st (pd_attempts d + 1) (tk_jitter tk))),
            pd_updated := ts_col P (now (tk_env tk))\<rparr>)
    | Crashed m \<Rightarrow> out = Inl (OtherException m) \<and> get_event k (gw_db g') = Some ev
        \<and> get_delivery k (gw_db g') = Some d)"
proof -
  let ?e = "(tk_env tk)\<lparr>trace := normalize_trace_id (tk_fresh tk) (Some (pd_trace d))\<rparr>"
  obtain db where ad: "after_delivery P st ?e (tk_jitter tk) d ev res (tk_others tk (gw_db g)) = (out, db)"
    and g': "gw_client g' = cl" "gw_db g' = db"
    using assms by (auto simp: process_event_def split: prod.splits)
  have ids: "ev_id ev = k" "pd_event_id d = k"
    using assms(1,2) get_event_Some_id get_delivery_Some_id by auto
  have kept: "get_event k (tk_others tk (gw_db g)) = Some ev" "get_delivery k (tk_others tk (gw_db g)) = Some d"
    using assms(1-3) by (auto simp: spares_def)
  show ?thesis
  proof (cases res)
    case (Got r)
    with after_delivery_spec [OF ad ids] kept g' show ?thesis by auto
  next
    case (Unavailable err)
    with after_delivery_spec [OF ad ids] kept g' show ?thesis by (auto simp: set_rescheduled_def)
  next
    case (Crashed m)
    with after_delivery_spec [OF ad ids] kept g' show ?thesis by auto
  qed
qed

text \<open>A gateway with one queued event, for the witnesses.\<close>

definition queued_gateway :: "'c \<Rightarrow> 'c gateway" where
  "queued_gateway cl = (fresh_gateway cl)\<lparr>gw_db := empty_gw_db\<lparr>
     gd_events := [(new_event sample_env sample_event)\<lparr>ev_status := QUEUED\<rparr>],
     gd_deliveries := [new_delivery sample_env ''evt-1'' ''acct-1'' (payload_of sample_event) ''trace-1'']\<rparr>\<rparr>"

definition sample_tick :: tick where
  "sample_tick = \<lparr>tk_env = \<lparr>now = utc 5000000, trace = ''-''\<rparr>, tk_fresh = ''fresh'', tk_jitter = 0, tk_others = id\<rparr>"

lemma sample_tick_sel [simp]:
  "tk_others sample_tick = id" "tk_fresh sample_tick = ''fresh''" "tk_jitter sample_tick = 0"
  "now (tk_env sample_tick) = utc 5000000"
  by (simp_all add: sample_tick_def)

lemma queued_gateway_get [simp]:
  "gw_client (queued_gateway cl) = cl"
  "get_event ''evt-1'' (gw_db (queued_gateway cl)) = Some ((new_event sample_env sample_event)\<lparr>ev_status := QUEUED\<rparr>)"
  "get_delivery ''evt-1'' (gw_db (queued_gateway cl)) =
     Some (new_delivery sample_env ''evt-1'' ''acct-1'' (payload_of sample_event) ''trace-1'')"
  "gd_deliveries (gw_db (queued_gateway cl)) =
     [new_delivery sample_env ''evt-1'' ''acct-1'' (payload_of sample_event) ''trace-1'']"
  by (simp_all add: queued_gateway_def fresh_gateway_def get_event_def get_delivery_def tget_Cons new_event_def
      sample_event_def new_delivery_def)

theorem process_event_outcome_witness:
  "let g' = snd (process_event exact_platform default_settings sample_tick
     (\<lambda>tid p n. (Unavailable ''timeout'', Suc n)) ''evt-1'' (queued_gateway 0))
   in gw_client g' = 1 \<and> map_option pd_attempts (get_delivery ''evt-1'' (gw_db g')) = Some 1"
proof -
  obtain out g' where eq: "process_event exact_platform default_settings sample_tick
    (\<lambda>tid p n. (Unavailable ''timeout'', Suc n)) ''evt-1'' (queued_gateway 0) = (out, g')" by fastforce
  from process_event_outcome [OF queued_gateway_get(3) queued_gateway_get(2) _ _ eq, of "Unavailable ''timeout''" 1] eq
  show ?thesis by (simp add: Let_def new_delivery_def)
qed

section \<open>The order of the queue\<close>

definition queue_order :: "delivery \<Rightarrow> int \<times> string" where
  "queue_order = (\<lambda>d. (instant (pd_next d), pd_event_id d))"

definition due_deliveries :: "datetime \<Rightarrow> gw_db \<Rightarrow> delivery list" where
  "due_deliveries t db = sort_key queue_order (filter (\<lambda>d. instant (pd_next d) \<le> instant t) (gd_deliveries db))"

lemma due_event_ids_eq:
  "0 \<le> lmt \<Longrightarrow> due_event_ids lmt t db = map pd_event_id (take (nat lmt) (due_deliveries t db))"
  by (simp add: due_event_ids_def due_deliveries_def Let_def take_map queue_order_def)

lemma due_deliveries_set: "set (due_deliveries t db) = {d \<in> set (gd_deliveries db). instant (pd_next d) \<le> instant t}"
  by (auto simp: due_deliveries_def)

lemma due_deliveries_length: "length (due_deliveries t db) \<le> delivery_count db"
  by (simp add: due_deliveries_def delivery_count_def)

lemma due_event_ids_distinct:
  assumes "uniq pd_event_id (gd_deliveries db)" and "0 \<le> lmt"
  shows "distinct (due_event_ids lmt t db)"
proof -
  have "distinct (map pd_event_id (filter (\<lambda>d. instant (pd_next d) \<le> instant t) (gd_deliveries db)))"
    using assms(1) by (auto simp: uniq_def distinct_map intro: inj_on_subset)
  then have "distinct (map pd_event_id (due_deliveries t db))"
    by (simp add: distinct_map due_deliveries_def)
  then show ?thesis by (simp add: due_event_ids_eq [OF assms(2)] take_map [symmetric] distinct_take)
qed

lemma due_event_ids_stored:
  assumes "uniq pd_event_id (gd_deliveries db)" and "0 \<le> lmt" and "k \<in> set (due_event_ids lmt t db)"
  shows "\<exists>d. get_delivery k db = Some d \<and> instant (pd_next d) \<le> instant t"
proof -
  from assms(2,3) obtain d where "d \<in> set (take (nat lmt) (due_deliveries t db))" "pd_event_id d = k"
    by (auto simp: due_event_ids_eq)
  then have "d \<in> set (gd_deliveries db)" "instant (pd_next d) \<le> instant t"
    using in_set_takeD [of d "nat lmt" "due_deliveries t db"] due_deliveries_set by auto
  with tget_unique [OF assms(1)] \<open>pd_event_id d = k\<close> show ?thesis unfolding get_delivery_def by blast
qed

lemma due_event_ids_all:
  assumes "int (delivery_count db) \<le> lmt" and "get_delivery k db = Some d" and "instant (pd_next d) \<le> instant t"
  shows "k \<in> set (due_event_ids lmt t db)"
proof -
  from assms(2) have "d \<in> set (gd_deliveries db)" "pd_event_id d = k"
    unfolding get_delivery_def by (auto dest: tget_Some)
  moreover have "take (nat lmt) (due_deliveries t db) = due_deliveries t db"
    using due_deliveries_length [of t db] assms(1) by simp
  ultimately show ?thesis using assms(1,3) due_deliveries_set [of t db] by (auto simp: due_event_ids_eq)
qed

text \<open>
  C36. The backoff is respected: after an attempt that found the account service unavailable, no poll
  takes the event before the backoff has passed, and every poll with room for the whole queue takes it
  from then on.
\<close>

theorem backoff_respected:
  assumes "get_delivery k (gw_db g) = Some d" and "get_event k (gw_db g) = Some ev"
    and "spares k (tk_others tk)"
    and "call (normalize_trace_id (tk_fresh tk) (Some (pd_trace d))) (pd_payload d) (gw_client g) = (Unavailable err, cl)"
    and "process_event P st tk call k g = (out, g')"
    and "uniq pd_event_id (gd_deliveries (gw_db g'))"
    and "pause = backoff_seconds st (pd_attempts d + 1) (tk_jitter tk)"
    and "ts_exact P (plus_seconds (now (tk_env tk)) pause)"
    and "int (delivery_count (gw_db g')) \<le> lmt"
  shows "k \<in> set (due_event_ids lmt t (gw_db g')) \<longleftrightarrow>
    instant (now (tk_env tk)) + round_half_even (pause * 1000000) \<le> instant t"
proof -
  let ?e = "(tk_env tk)\<lparr>trace := normalize_trace_id (tk_fresh tk) (Some (pd_trace d))\<rparr>"
  obtain db where ad: "after_delivery P st ?e (tk_jitter tk) d ev (Unavailable err) (tk_others tk (gw_db g)) = (out, db)"
    and g': "gw_db g' = db"
    using assms(1-5) by (auto simp: process_event_def split: prod.splits)
  have ids: "ev_id ev = k" "pd_event_id d = k"
    using assms(1,2) get_event_Some_id get_delivery_Some_id by auto
  have "get_delivery k (tk_others tk (gw_db g)) = Some d"
    using assms(1,3) by (auto simp: spares_def)
  with after_delivery_spec [OF ad ids] g' obtain d' where d': "get_delivery k (gw_db g') = Some d'"
    "pd_next d' = ts_col P (plus_seconds (now (tk_env tk)) pause)"
    by (auto simp: set_rescheduled_def assms(7))
  then have next_at: "instant (pd_next d') = instant (now (tk_env tk)) + round_half_even (pause * 1000000)"
    using assms(8) by (simp add: ts_exact_def instant_plus_seconds)
  have "0 \<le> lmt" using assms(9) by simp
  from due_event_ids_stored [OF assms(6) this] due_event_ids_all [OF assms(9)] d'(1) next_at show ?thesis
    by fastforce
qed

theorem backoff_respected_witness:
  "let g' = snd (process_event exact_platform default_settings sample_tick
     (\<lambda>tid p n. (Unavailable ''timeout'', Suc n)) ''evt-1'' (queued_gateway 0))
   in ''evt-1'' \<notin> set (due_event_ids 25 (utc 5999999) (gw_db g'))
    \<and> ''evt-1'' \<in> set (due_event_ids 25 (utc 6000000) (gw_db g'))"
proof -
  obtain out g' where eq: "process_event exact_platform default_settings sample_tick
    (\<lambda>tid p n. (Unavailable ''timeout'', Suc n)) ''evt-1'' (queued_gateway 0) = (out, g')" by fastforce
  then have rows: "map pd_event_id (gd_deliveries (gw_db g')) = [''evt-1'']"
    by (auto simp: process_event_def after_delivery_def commit_then_def retry_writes_def Let_def
        gw_commit_postpone postpone_def new_delivery_def)
  then have "length (gd_deliveries (gw_db g')) = 1"
    by (metis One_nat_def length_Cons length_map list.size(3))
  with rows have "''evt-1'' \<in> set (due_event_ids 25 t (gw_db g')) \<longleftrightarrow> 6000000 \<le> instant t" for t
    using backoff_respected [OF queued_gateway_get(3) queued_gateway_get(2) _ _ eq _ refl, where lmt = 25 and t = t]
    by (simp add: uniq_def delivery_count_def new_delivery_def backoff_seconds_def Let_def round_half_even_def)
  with eq show ?thesis by (simp add: Let_def)
qed

section \<open>A delivery whose call crashes\<close>

text \<open>
  C37. A delivery at the head of the queue whose call ends in an exception the client does not
  translate blocks the whole queue: as long as the polls find it first, no other delivery is attempted,
  no event changes, and its own next attempt is never put off.
\<close>

theorem crash_blocks_queue:
  assumes "get_delivery k (gw_db g) = Some d" and "get_event k (gw_db g) = Some ev"
    and "\<And>tid cl. fst (call tid (pd_payload d) cl) = Crashed m"
    and "\<forall>(t, tks) \<in> set polls. hd (due_event_ids (st_batch_size st) t (gw_db g)) = k
      \<and> due_event_ids (st_batch_size st) t (gw_db g) \<noteq> [] \<and> tk_others (tks 0) = id"
  shows "gw_db (worker_run P st call polls g) = gw_db g"
  using assms(1,2,4)
proof (induction polls arbitrary: g)
  case Nil
  then show ?case by simp
next
  case (Cons poll polls)
  obtain t tks where poll: "poll = (t, tks)" by fastforce
  with Cons.prems(3) obtain ks where ks: "due_event_ids (st_batch_size st) t (gw_db g) = k # ks"
    and others: "tk_others (tks 0) = id"
    by (cases "due_event_ids (st_batch_size st) t (gw_db g)") (auto simp: id_def)
  have depth: "gw_db (set_depth g) = gw_db g" by (simp add: set_depth_def)
  have "\<exists>g'. process_event P st (tks 0) call k (set_depth g) = (Inl (OtherException m), g') \<and> gw_db g' = gw_db g"
  proof -
    let ?tid = "normalize_trace_id (tk_fresh (tks 0)) (Some (pd_trace d))"
    obtain cl where "call ?tid (pd_payload d) (gw_client (set_depth g)) = (Crashed m, cl)"
      using assms(3) by (metis prod.collapse)
    with Cons.prems(1,2) others depth show ?thesis by (simp add: process_event_def after_delivery_def)
  qed
  then have "gw_db (snd (process_once P st t tks call g)) = gw_db g"
    by (auto simp: process_once_def ks Let_def)
  with Cons.IH [of "snd (process_once P st t tks call g)"] Cons.prems show ?case by (simp add: poll)
qed

text \<open>Two queued events; the account service answers for every payload but the first one's.\<close>

definition second_event :: event_create where
  "second_event = sample_event\<lparr>ec_event_id := ''evt-2''\<rparr>"

definition two_queued :: "nat gateway" where
  "two_queued = (fresh_gateway 0)\<lparr>gw_db := empty_gw_db\<lparr>
     gd_events := [(new_event sample_env sample_event)\<lparr>ev_status := QUEUED\<rparr>,
       (new_event sample_env second_event)\<lparr>ev_status := QUEUED\<rparr>],
     gd_deliveries := [new_delivery sample_env ''evt-1'' ''acct-1'' (payload_of sample_event) ''trace-1'',
       new_delivery sample_env ''evt-2'' ''acct-1'' (payload_of second_event) ''trace-2'']\<rparr>\<rparr>"

lemma two_queued_due: "due_event_ids 25 (utc 2000) (gw_db two_queued) = [''evt-1'', ''evt-2'']"
  by (simp add: due_event_ids_eq due_deliveries_def queue_order_def two_queued_def new_delivery_def sample_env_def)

theorem crash_blocks_queue_witness:
  "let call = (\<lambda>tid p n. (if pl_event_id p = ''evt-1'' then Crashed ''InvalidURL'' else Got (answer 201), Suc n))
   in gw_db (worker_run exact_platform default_settings call (replicate 9 (utc 2000, \<lambda>_. sample_tick)) two_queued)
      = gw_db two_queued"
proof -
  let ?call = "\<lambda>tid p n. (if pl_event_id p = ''evt-1'' then Crashed ''InvalidURL'' else Got (answer 201), Suc n)"
  have d: "get_delivery ''evt-1'' (gw_db two_queued) =
      Some (new_delivery sample_env ''evt-1'' ''acct-1'' (payload_of sample_event) ''trace-1'')"
    by (simp add: two_queued_def get_delivery_def tget_Cons)
  have ev: "get_event ''evt-1'' (gw_db two_queued) = Some ((new_event sample_env sample_event)\<lparr>ev_status := QUEUED\<rparr>)"
    by (simp add: two_queued_def get_event_def tget_Cons new_event_def sample_event_def)
  have "gw_db (worker_run exact_platform default_settings ?call (replicate 9 (utc 2000, \<lambda>_. sample_tick)) two_queued)
      = gw_db two_queued"
    by (rule crash_blocks_queue [OF d ev, where m = "''InvalidURL''"])
      (simp_all add: payload_of_def sample_event_def two_queued_due)
  then show ?thesis by (simp add: Let_def)
qed

section \<open>A healthy account service drains the queue\<close>

text \<open>
  \<open>drained_by ks\<close> relates two databases when exactly the deliveries of \<open>ks\<close> are gone and exactly
  their events became \<open>APPLIED\<close>.
\<close>

definition drained_by :: "string list \<Rightarrow> gw_db \<Rightarrow> gw_db \<Rightarrow> bool" where
  "drained_by ks db db' \<longleftrightarrow> gd_deliveries db' = filter (\<lambda>d. pd_event_id d \<notin> set ks) (gd_deliveries db)
     \<and> (\<forall>k. if k \<in> set ks then map_option ev_status (get_event k db') = Some APPLIED
          else get_event k db' = get_event k db)"

definition healthy :: "'c caller \<Rightarrow> bool" where
  "healthy call \<longleftrightarrow> (\<forall>tid p cl. \<exists>r cl'. call tid p cl = (Got r, cl') \<and> rs_status r < 400)"

definition queue_wf :: "gw_db \<Rightarrow> bool" where
  "queue_wf db \<longleftrightarrow> uniq pd_event_id (gd_deliveries db)
     \<and> (\<forall>d \<in> set (gd_deliveries db). get_event (pd_event_id d) db \<noteq> None)"

lemma drained_by_Nil: "drained_by [] db db"
  by (simp add: drained_by_def)

lemma drained_by_trans:
  assumes "drained_by ks db db'" and "drained_by js db' db''"
  shows "drained_by (ks @ js) db db''"
proof -
  have "gd_deliveries db'' = filter (\<lambda>d. pd_event_id d \<notin> set (ks @ js)) (gd_deliveries db)"
    using assms by (auto simp: drained_by_def intro: filter_cong)
  moreover have "if k \<in> set (ks @ js) then map_option ev_status (get_event k db'') = Some APPLIED
      else get_event k db'' = get_event k db" for k
  proof -
    from assms have "if k \<in> set ks then map_option ev_status (get_event k db') = Some APPLIED
        else get_event k db' = get_event k db"
      and "if k \<in> set js then map_option ev_status (get_event k db'') = Some APPLIED
        else get_event k db'' = get_event k db'"
      by (auto simp: drained_by_def)
    then show ?thesis by (auto split: if_splits)
  qed
  ultimately show ?thesis unfolding drained_by_def by blast
qed

lemma drained_by_event: "drained_by ks db db' \<Longrightarrow> get_event k db \<noteq> None \<Longrightarrow> get_event k db' \<noteq> None"
  unfolding drained_by_def by (metis option.distinct(1) option.map_disc_iff)

lemma drained_by_wf:
  assumes "drained_by ks db db'" and "queue_wf db"
  shows "queue_wf db'"
proof -
  from assms(1) have rows: "gd_deliveries db' = filter (\<lambda>d. pd_event_id d \<notin> set ks) (gd_deliveries db)"
    by (simp add: drained_by_def)
  from assms(2) have "uniq pd_event_id (gd_deliveries db')"
    unfolding rows by (auto simp: queue_wf_def uniq_def distinct_map intro: inj_on_subset)
  moreover have "\<forall>d \<in> set (gd_deliveries db'). get_event (pd_event_id d) db' \<noteq> None"
    using drained_by_event [OF assms(1)] assms(2) by (auto simp: rows queue_wf_def)
  ultimately show ?thesis by (simp add: queue_wf_def)
qed

lemma process_event_healthy:
  assumes "healthy call" and "tk_others tk = id" and "queue_wf (gw_db g)" and "get_delivery k (gw_db g) = Some d"
  shows "\<exists>g'. process_event P st tk call k g = (Inr True, g') \<and> drained_by [k] (gw_db g) (gw_db g')"
proof -
  let ?e = "(tk_env tk)\<lparr>trace := normalize_trace_id (tk_fresh tk) (Some (pd_trace d))\<rparr>"
  from assms(4) have "d \<in> set (gd_deliveries (gw_db g))" "pd_event_id d = k"
    unfolding get_delivery_def by (auto dest: tget_Some)
  with assms(3) obtain ev where ev: "get_event k (gw_db g) = Some ev" by (auto simp: queue_wf_def)
  obtain r cl where call: "call (trace ?e) (pd_payload d) (gw_client g) = (Got r, cl)" "rs_status r < 400"
    using assms(1) unfolding healthy_def by meson
  obtain out db where ad: "after_delivery P st ?e (tk_jitter tk) d ev (Got r) (gw_db g) = (out, db)" by fastforce
  from after_delivery_spec [OF ad get_event_Some_id [OF ev] \<open>pd_event_id d = k\<close>] ev call(2)
  obtain a where out: "out = Inr True" "db = settle P APPLIED (now ?e) k a (gw_db g)" by auto
  have "drained_by [k] (gw_db g) db"
    using ev by (auto simp: out(2) drained_by_def tdel_def)
  with ad out(1) call ev assms(2,4) show ?thesis by (auto simp: process_event_def)
qed

lemma process_all_healthy:
  assumes "healthy call" and "\<forall>i. tk_others (tks i) = id" and "queue_wf (gw_db g)" and "distinct ks"
    and "\<forall>k \<in> set ks. get_delivery k (gw_db g) \<noteq> None"
  shows "\<exists>g'. process_all P st tks call ks i n g = (Inr (n + length ks), g') \<and> drained_by ks (gw_db g) (gw_db g')"
  using assms(3-5)
proof (induction ks arbitrary: i n g)
  case Nil
  then show ?case by (simp add: drained_by_Nil)
next
  case (Cons k ks)
  from Cons.prems(3) obtain d where "get_delivery k (gw_db g) = Some d" by auto
  from process_event_healthy [OF assms(1) _ Cons.prems(1) this, of "tks i" P st] assms(2)
  obtain g1 where g1: "process_event P st (tks i) call k g = (Inr True, g1)" "drained_by [k] (gw_db g) (gw_db g1)"
    by auto
  have "get_delivery j (gw_db g1) \<noteq> None" if "j \<in> set ks" for j
  proof -
    have "get_delivery j (gw_db g1) = get_delivery j (gw_db g)"
      using g1(2) that Cons.prems(2) tget_filter_key [of pd_event_id j k "gd_deliveries (gw_db g)"]
      by (auto simp: drained_by_def get_delivery_def)
    with that Cons.prems(3) show ?thesis by simp
  qed
  with Cons.IH [of g1 "Suc i" "Suc n"] drained_by_wf [OF g1(2) Cons.prems(1)] Cons.prems(2)
  obtain g' where g': "process_all P st tks call ks (Suc i) (Suc n) g1 = (Inr (Suc n + length ks), g')"
    "drained_by ks (gw_db g1) (gw_db g')" by auto
  with g1 drained_by_trans [OF g1(2) g'(2)] show ?case by simp
qed

lemma process_once_healthy:
  assumes "healthy call" and "\<forall>i. tk_others (tks i) = id" and "queue_wf (gw_db g)" and "0 \<le> st_batch_size st"
    and "\<forall>d \<in> set (gd_deliveries (gw_db g)). instant (pd_next d) \<le> instant t"
  shows "\<exists>ks. drained_by ks (gw_db g) (gw_db (snd (process_once P st t tks call g)))
    \<and> set ks \<subseteq> pd_event_id ` set (gd_deliveries (gw_db g))
    \<and> delivery_count (gw_db (snd (process_once P st t tks call g)))
        = delivery_count (gw_db g) - nat (st_batch_size st)"
proof -
  let ?ks = "due_event_ids (st_batch_size st) t (gw_db g)"
  have wf: "uniq pd_event_id (gd_deliveries (gw_db g))" using assms(3) by (simp add: queue_wf_def)
  have depth: "gw_db (set_depth g') = gw_db g'" for g' :: "'a gateway" by (simp add: set_depth_def)
  have due: "get_delivery k (gw_db g) \<noteq> None" if "k \<in> set ?ks" for k
    using due_event_ids_stored [OF wf assms(4) that] by auto
  obtain g' where g': "process_all P st tks call ?ks 0 0 (set_depth g) = (Inr (length ?ks), g')"
    "drained_by ?ks (gw_db g) (gw_db g')"
    using process_all_healthy [OF assms(1,2), of "set_depth g" ?ks P st 0 0] assms(3) depth due
      due_event_ids_distinct [OF wf assms(4)] by auto
  then have stop: "gw_db (snd (process_once P st t tks call g)) = gw_db g'"
    by (simp add: process_once_def Let_def depth)
  have sub: "set ?ks \<subseteq> pd_event_id ` set (gd_deliveries (gw_db g))"
    using due unfolding get_delivery_def tget_None by blast
  have "length (due_deliveries t (gw_db g)) = delivery_count (gw_db g)"
    using assms(5) by (simp add: due_deliveries_def delivery_count_def filter_id_conv [THEN iffD2])
  then have "length ?ks = min (delivery_count (gw_db g)) (nat (st_batch_size st))"
    by (simp add: due_event_ids_eq [OF assms(4)])
  moreover have "delivery_count (gw_db g') + length ?ks = delivery_count (gw_db g)"
    using g'(2) length_filter_keys [OF wf due_event_ids_distinct [OF wf assms(4)] sub]
    by (simp add: drained_by_def delivery_count_def)
  ultimately have "delivery_count (gw_db g') = delivery_count (gw_db g) - nat (st_batch_size st)" by linarith
  with g'(2) stop sub show ?thesis by auto
qed

lemma worker_run_healthy:
  assumes "healthy call" and "0 \<le> st_batch_size st" and "queue_wf (gw_db g)"
    and "\<forall>(t, tks) \<in> set polls. (\<forall>i. tk_others (tks i) = id)
      \<and> (\<forall>d \<in> set (gd_deliveries (gw_db g)). instant (pd_next d) \<le> instant t)"
  shows "\<exists>ks. drained_by ks (gw_db g) (gw_db (worker_run P st call polls g))
    \<and> set ks \<subseteq> pd_event_id ` set (gd_deliveries (gw_db g))
    \<and> delivery_count (gw_db (worker_run P st call polls g))
        = delivery_count (gw_db g) - length polls * nat (st_batch_size st)"
  using assms(3,4)
proof (induction polls arbitrary: g)
  case Nil
  then show ?case by (auto intro!: exI [of _ "[]"] simp: drained_by_Nil)
next
  case (Cons poll polls)
  obtain t tks where poll: "poll = (t, tks)" by fastforce
  let ?g = "snd (process_once P st t tks call g)"
  have now: "\<forall>i. tk_others (tks i) = id" "\<forall>d \<in> set (gd_deliveries (gw_db g)). instant (pd_next d) \<le> instant t"
    using Cons.prems(2) poll by auto
  from process_once_healthy [OF assms(1) now(1) Cons.prems(1) assms(2) now(2), of P]
  obtain ks where ks: "drained_by ks (gw_db g) (gw_db ?g)" "set ks \<subseteq> pd_event_id ` set (gd_deliveries (gw_db g))"
    "delivery_count (gw_db ?g) = delivery_count (gw_db g) - nat (st_batch_size st)" by auto
  then have sub: "set (gd_deliveries (gw_db ?g)) \<subseteq> set (gd_deliveries (gw_db g))"
    by (auto simp: drained_by_def)
  with Cons.IH [OF drained_by_wf [OF ks(1) Cons.prems(1)]] Cons.prems(2)
  obtain js where js: "drained_by js (gw_db ?g) (gw_db (worker_run P st call polls ?g))"
    "set js \<subseteq> pd_event_id ` set (gd_deliveries (gw_db ?g))"
    "delivery_count (gw_db (worker_run P st call polls ?g))
       = delivery_count (gw_db ?g) - length polls * nat (st_batch_size st)"
    by fastforce
  from js(2) sub have "set js \<subseteq> pd_event_id ` set (gd_deliveries (gw_db g))"
    by (meson image_mono subset_trans)
  with drained_by_trans [OF ks(1) js(1)] ks(2,3) js(3) show ?case
    by (intro exI [of _ "ks @ js"]) (auto simp: poll)
qed

text \<open>
  C16. When the account service answers below 400 and no other session interferes, the worker drains
  the queue: after as many polls as it takes batches to cover the queue, each at a time when all its
  deliveries are due, no delivery is left and every event that was queued is \<open>APPLIED\<close>.
\<close>

theorem queue_drains:
  assumes "healthy call" and "queue_wf (gw_db g)" and "0 \<le> st_batch_size st"
    and "\<forall>(t, tks) \<in> set polls. (\<forall>i. tk_others (tks i) = id)
      \<and> (\<forall>d \<in> set (gd_deliveries (gw_db g)). instant (pd_next d) \<le> instant t)"
    and "delivery_count (gw_db g) \<le> length polls * nat (st_batch_size st)"
  shows "gd_deliveries (gw_db (worker_run P st call polls g)) = []
    \<and> (\<forall>k. if get_delivery k (gw_db g) \<noteq> None
        then map_option ev_status (get_event k (gw_db (worker_run P st call polls g))) = Some APPLIED
        else get_event k (gw_db (worker_run P st call polls g)) = get_event k (gw_db g))"
proof -
  let ?db = "gw_db (worker_run P st call polls g)"
  from worker_run_healthy [OF assms(1,3,2,4)] obtain ks where ks: "drained_by ks (gw_db g) ?db"
    "set ks \<subseteq> pd_event_id ` set (gd_deliveries (gw_db g))"
    "delivery_count ?db = delivery_count (gw_db g) - length polls * nat (st_batch_size st)" by blast
  then have none: "gd_deliveries ?db = []" using assms(5) by (simp add: delivery_count_def)
  then have all: "set ks = pd_event_id ` set (gd_deliveries (gw_db g))"
    using ks(1,2) filter_empty_conv [of "\<lambda>d. pd_event_id d \<notin> set ks" "gd_deliveries (gw_db g)"]
    by (auto simp: drained_by_def)
  have "k \<in> set ks \<longleftrightarrow> get_delivery k (gw_db g) \<noteq> None" for k
    unfolding all get_delivery_def tget_None by blast
  with ks(1) none show ?thesis by (simp add: drained_by_def)
qed

theorem queue_drains_witness:
  "let call = (\<lambda>tid p n. (Got (answer 201), Suc n));
       g' = worker_run exact_platform default_settings call [(utc 2000, \<lambda>_. sample_tick)] two_queued
   in gd_deliveries (gw_db g') = [] \<and> map_option ev_status (get_event ''evt-2'' (gw_db g')) = Some APPLIED"
proof -
  let ?call = "\<lambda>tid p n. (Got (answer 201), Suc n)"
  let ?g = "worker_run exact_platform default_settings ?call [(utc 2000, \<lambda>_. sample_tick)] two_queued"
  have healthy: "healthy ?call" by (auto simp: healthy_def answer_def)
  have wf: "queue_wf (gw_db two_queued)"
    by (simp add: queue_wf_def two_queued_def uniq_def new_delivery_def get_event_def tget_Cons new_event_def
        sample_event_def second_event_def)
  have rows: "\<forall>(t, tks) \<in> set [(utc 2000, \<lambda>_::nat. sample_tick)]. (\<forall>i. tk_others (tks i) = id)
      \<and> (\<forall>d \<in> set (gd_deliveries (gw_db two_queued)). instant (pd_next d) \<le> instant t)"
    by (auto simp: two_queued_def new_delivery_def sample_env_def)
  have "get_delivery ''evt-2'' (gw_db two_queued) \<noteq> None"
    by (simp add: two_queued_def get_delivery_def tget_Cons)
  moreover have "delivery_count (gw_db two_queued) \<le> length [(utc 2000, \<lambda>_::nat. sample_tick)] * nat (st_batch_size default_settings)"
    by (simp add: delivery_count_def two_queued_def)
  ultimately have "gd_deliveries (gw_db ?g) = [] \<and> map_option ev_status (get_event ''evt-2'' (gw_db ?g)) = Some APPLIED"
    using queue_drains [OF healthy wf _ rows, where P = exact_platform] by (metis default_settings_sel(9) zero_le_numeral)
  then show ?thesis by (simp add: Let_def)
qed

end
