(* ===== verification/GatewaySystem.thy ===== *)
theory GatewaySystem
  imports AsyncFallback
begin

text \<open>
  The gateway as a whole: any number of \<open>POST /events\<close> handlers in flight on the event loop, and the
  one background worker, interleaved at the points where the code awaits or commits. The steps are the
  pieces of \<open>EventService.submit\<close> and \<open>AsyncFallbackWorker._process_event\<close>: look-up, INSERT, each turn of
  the client's retry loop, commit of the outcome, so that the calls of several handlers and of the worker
  overlap attempt by attempt. A handler or the worker can also be cut off at any point (a cancelled request,
  a restarted process); what it has committed stays.

  \<open>sy_origin\<close> is a ghost: the request by which an event id was stored.
\<close>

section \<open>The system\<close>

text \<open>
  A turn of the client: the call so far, and what it comes to, the result or how far the call is now.
\<close>

type_synonym 'c sender = "string \<Rightarrow> payload \<Rightarrow> progress \<Rightarrow> 'c \<Rightarrow> (call_result + progress) \<times> 'c"

datatype stage = LookedUp gw_db | Sending progress | Answered call_result

record flight =
  fl_env :: env
  fl_cmd :: event_create
  fl_stage :: stage

text \<open>The worker knows the trace id of the delivery it is working on.\<close>

datatype worker = Idle | Delivering delivery event_row string progress | Delivered delivery event_row call_result

fun turned :: "call_result + progress \<Rightarrow> stage" where
  "turned (Inl res) = Answered res"
| "turned (Inr pr) = Sending pr"

fun turned_worker :: "delivery \<Rightarrow> event_row \<Rightarrow> string \<Rightarrow> call_result + progress \<Rightarrow> worker" where
  "turned_worker d ev tid (Inl res) = Delivered d ev res"
| "turned_worker d ev tid (Inr pr) = Delivering d ev tid pr"

record 'c system =
  sy_db :: gw_db
  sy_client :: 'c
  sy_flights :: "flight list"
  sy_worker :: worker
  sy_origin :: "string \<Rightarrow> event_create option"

definition initial :: "'c \<Rightarrow> 'c system" where
  "initial cl = \<lparr>sy_db = empty_gw_db, sy_client = cl, sy_flights = [], sy_worker = Idle, sy_origin = (\<lambda>_. None)\<rparr>"

text \<open>
  The steps, for the requests \<open>ok\<close> that pass validation. \<open>drift\<close> is what happens beyond the client without
  the gateway's doing, at any time: a message that arrives long after its sender has given it up. \<open>insert\<close> runs \<open>submit_start\<close> with the database
  the handler looked the event up in, and the current one for its INSERT. A handler commits an event and the
  audit record of it one after the other; \<open>stored_only\<close> and \<open>saved_only\<close> are handlers that end in between, because
  the process stops or the second commit fails.
\<close>

text \<open>The status that \<open>after_call\<close> commits on its own, before the audit record.\<close>

definition saved_status :: "settings \<Rightarrow> call_result \<Rightarrow> proc_status option" where
  "saved_status st res = (case res of
     Got r \<Rightarrow> Some (if 400 \<le> rs_status r then FAILED else APPLIED)
   | Unavailable _ \<Rightarrow> if st_fallback_enabled st then None else Some FAILED
   | Crashed _ \<Rightarrow> None)"

inductive step :: "platform \<Rightarrow> settings \<Rightarrow> 'c sender \<Rightarrow> ('c \<Rightarrow> 'c \<Rightarrow> bool) \<Rightarrow> (event_create \<Rightarrow> bool) \<Rightarrow> 'c system \<Rightarrow> 'c system \<Rightarrow> bool"
  for P st send drift ok where
  known: "get_event (ec_event_id c) (sy_db s) = Some ev \<Longrightarrow> submit_start P e id c (sy_db s) = (Some out, db')
    \<Longrightarrow> step P st send drift ok s (s\<lparr>sy_db := db'\<rparr>)"
| look_up: "ok c \<Longrightarrow> get_event (ec_event_id c) (sy_db s) = None
    \<Longrightarrow> step P st send drift ok s (s\<lparr>sy_flights := sy_flights s @ [\<lparr>fl_env = e, fl_cmd = c, fl_stage = LookedUp (sy_db s)\<rparr>]\<rparr>)"
| insert: "sy_flights s = xs @ \<lparr>fl_env = e, fl_cmd = c, fl_stage = LookedUp db\<rparr> # ys
    \<Longrightarrow> submit_start P e (\<lambda>_. sy_db s) c db = (None, db')
    \<Longrightarrow> step P st send drift ok s (s\<lparr>sy_db := db', sy_flights := xs @ \<lparr>fl_env = e, fl_cmd = c, fl_stage = Sending NotBegun\<rparr> # ys,
          sy_origin := (sy_origin s)(ec_event_id c \<mapsto> c)\<rparr>)"
| lost_race: "sy_flights s = xs @ \<lparr>fl_env = e, fl_cmd = c, fl_stage = LookedUp db\<rparr> # ys
    \<Longrightarrow> submit_start P e (\<lambda>_. sy_db s) c db = (Some out, db')
    \<Longrightarrow> step P st send drift ok s (s\<lparr>sy_db := db', sy_flights := xs @ ys\<rparr>)"
| call: "sy_flights s = xs @ \<lparr>fl_env = e, fl_cmd = c, fl_stage = Sending pr\<rparr> # ys
    \<Longrightarrow> send (trace e) (payload_of c) pr (sy_client s) = (out, cl)
    \<Longrightarrow> step P st send drift ok s (s\<lparr>sy_client := cl,
          sy_flights := xs @ \<lparr>fl_env = e, fl_cmd = c, fl_stage = turned out\<rparr> # ys\<rparr>)"
| finish: "sy_flights s = xs @ \<lparr>fl_env = e, fl_cmd = c, fl_stage = Answered res\<rparr> # ys
    \<Longrightarrow> after_call P st e c res (sy_db s) = (out, db')
    \<Longrightarrow> step P st send drift ok s (s\<lparr>sy_db := db', sy_flights := xs @ ys\<rparr>)"
| stored_only: "sy_flights s = xs @ \<lparr>fl_env = e, fl_cmd = c, fl_stage = LookedUp db\<rparr> # ys
    \<Longrightarrow> gw_commit P [InsEvent (new_event e c)] (sy_db s) = (None, db')
    \<Longrightarrow> step P st send drift ok s (s\<lparr>sy_db := db', sy_flights := xs @ ys, sy_origin := (sy_origin s)(ec_event_id c \<mapsto> c)\<rparr>)"
| saved_only: "sy_flights s = xs @ \<lparr>fl_env = e, fl_cmd = c, fl_stage = Answered res\<rparr> # ys
    \<Longrightarrow> saved_status st res = Some t \<Longrightarrow> gw_commit P [UpdEvent (ec_event_id c) t (now e)] (sy_db s) = (None, db')
    \<Longrightarrow> step P st send drift ok s (s\<lparr>sy_db := db', sy_flights := xs @ ys\<rparr>)"
| cut_off: "sy_flights s = xs @ f # ys \<Longrightarrow> step P st send drift ok s (s\<lparr>sy_flights := xs @ ys\<rparr>)"
| pick: "sy_worker s = Idle \<Longrightarrow> get_delivery k (sy_db s) = Some d \<Longrightarrow> get_event k (sy_db s) = Some ev
    \<Longrightarrow> step P st send drift ok s (s\<lparr>sy_worker :=
          Delivering d ev (normalize_trace_id fresh (Some (pd_trace d))) NotBegun\<rparr>)"
| orphan: "sy_worker s = Idle \<Longrightarrow> get_delivery k (sy_db s) = Some d \<Longrightarrow> get_event k (sy_db s) = None
    \<Longrightarrow> commit_then P [DelDelivery k] False (sy_db s) = (out, db') \<Longrightarrow> step P st send drift ok s (s\<lparr>sy_db := db'\<rparr>)"
| deliver: "sy_worker s = Delivering d ev tid pr \<Longrightarrow> send tid (pd_payload d) pr (sy_client s) = (out, cl)
    \<Longrightarrow> step P st send drift ok s (s\<lparr>sy_client := cl, sy_worker := turned_worker d ev tid out\<rparr>)"
| worker_done: "sy_worker s = Delivered d ev res \<Longrightarrow> after_delivery P st e j d ev res (sy_db s) = (out, db')
    \<Longrightarrow> step P st send drift ok s (s\<lparr>sy_db := db', sy_worker := Idle\<rparr>)"
| worker_cut_off: "step P st send drift ok s (s\<lparr>sy_worker := Idle\<rparr>)"
| elsewhere: "drift (sy_client s) cl \<Longrightarrow> step P st send drift ok s (s\<lparr>sy_client := cl\<rparr>)"

definition reachable :: "platform \<Rightarrow> settings \<Rightarrow> 'c sender \<Rightarrow> ('c \<Rightarrow> 'c \<Rightarrow> bool) \<Rightarrow> (event_create \<Rightarrow> bool) \<Rightarrow> 'c \<Rightarrow> 'c system \<Rightarrow> bool" where
  "reachable P st send drift ok cl s \<longleftrightarrow> (step P st send drift ok)\<^sup>*\<^sup>* (initial cl) s"

inductive_cases step_cases: "step P st send drift ok s s'"

section \<open>What a step does to the two tables\<close>

text \<open>
  A database change as the steps make them: nothing but audit records; a new event; the outcome of a
  handler; the outcome of the worker; an orphan removed.
\<close>

definition stored_row :: "platform \<Rightarrow> event_create \<Rightarrow> event_row \<Rightarrow> bool" where
  "stored_row P c ev \<longleftrightarrow> ev_id ev = ec_event_id c \<and> ev_account ev = ec_account_id c \<and> ev_type ev = ec_type c
     \<and> ev_amount ev = num_col P (ec_amount c) \<and> ev_currency ev = ec_currency c
     \<and> ev_timestamp ev = ts_col P (ec_timestamp c) \<and> ev_metadata ev = ec_metadata c"

lemma stored_row_new: "stored_row P c (stored_event P (new_event e c))"
  by (simp add: stored_row_def new_event_def)

lemma stored_row_status [simp]:
  "stored_row P c (set_status P s t ev) = stored_row P c ev"
  "stored_row P c (touched P e res s ev) = stored_row P c ev"
  by (simp_all add: stored_row_def touched_def split: call_result.splits)

lemma submit_start_same:
  assumes "submit_start P e w1 c db = (Some out, db')"
  shows "if get_event (ec_event_id c) db = None
    then get_event (ec_event_id c) (w1 db) \<noteq> None \<and> same_tables (w1 db) db' else same_tables db db'"
proof (cases "get_event (ec_event_id c) db")
  case (Some ev)
  with submit_start_known [OF Some, of P e w1] assms show ?thesis by auto
next
  case None
  show ?thesis
  proof (cases "get_event (ec_event_id c) (w1 db)")
    case (Some ev)
    with submit_start_raced [of c db w1 ev P e, OF None Some] assms None show ?thesis by auto
  next
    case None': None
    from submit_start_new [of c db w1 P e, OF None None'] assms show ?thesis by auto
  qed
qed

lemma submit_start_inserts:
  assumes "submit_start P e w1 c db = (None, db')"
  shows "get_event (ec_event_id c) db = None \<and> get_event (ec_event_id c) (w1 db) = None
    \<and> (\<forall>k. get_event k db' = (if k = ec_event_id c then Some (stored_event P (new_event e c)) else get_event k (w1 db)))
    \<and> (\<forall>k. get_delivery k db' = get_delivery k (w1 db))"
proof (cases "get_event (ec_event_id c) db")
  case (Some ev)
  with submit_start_known [OF Some, of P e w1] assms show ?thesis by auto
next
  case None
  show ?thesis
  proof (cases "get_event (ec_event_id c) (w1 db)")
    case (Some ev)
    with submit_start_raced [of c db w1 ev P e, OF None Some] assms show ?thesis by auto
  next
    case None': None
    from submit_start_new [of c db w1 P e, OF None None'] assms None None' show ?thesis by simp
  qed
qed

text \<open>A handler that ends between two commits leaves the tables as the whole of it does.\<close>

lemma stored_only_tables:
  assumes "get_event (ec_event_id c) db = None" and "gw_commit P [InsEvent (new_event e c)] w = (None, db')"
  obtains db2 where "submit_start P e (\<lambda>_. w) c db = (None, db2)" "same_tables db2 db'"
  using assms by (simp add: submit_start_def same_tables_def)

lemma saved_only_tables:
  assumes "saved_status st res = Some t" and "gw_commit P [UpdEvent (ec_event_id c) t (now e)] db = (None, db')"
  obtains out db2 where "after_call P st e c res db = (out, db2)" "same_tables db2 db'"
proof -
  have "same_tables (snd (after_call P st e c res db)) db'"
    using assms
    by (auto simp: saved_status_def after_call_def submit_rejected_def submit_applied_def submit_unavailable_def
        same_tables_def split: call_result.splits sum.splits if_splits)
  then show ?thesis using that by (cases "after_call P st e c res db") auto
qed

section \<open>The invariant\<close>

text \<open>A handler whose event is stored and that has not yet committed an outcome.\<close>

definition active :: "flight \<Rightarrow> bool" where
  "active f \<longleftrightarrow> (case fl_stage f of LookedUp _ \<Rightarrow> False | _ \<Rightarrow> True)"

definition flight_id :: "flight \<Rightarrow> string" where
  "flight_id f = ec_event_id (fl_cmd f)"

text \<open>
  The events have an origin and its data; there is a delivery exactly for the queued events, and it
  carries the origin's payload; an event with an active handler is pending and has one such handler
  only; the worker's delivery and event are the stored ones.
\<close>

definition flight_ok :: "(event_create \<Rightarrow> bool) \<Rightarrow> flight \<Rightarrow> bool" where
  "flight_ok ok f \<longleftrightarrow> ok (fl_cmd f)
     \<and> (case fl_stage f of LookedUp db \<Rightarrow> get_event (flight_id f) db = None | _ \<Rightarrow> True)"

definition events_inv :: "platform \<Rightarrow> (event_create \<Rightarrow> bool) \<Rightarrow> gw_db \<Rightarrow> (string \<Rightarrow> event_create option) \<Rightarrow> bool" where
  "events_inv P ok db origin \<longleftrightarrow> (\<forall>k. case get_event k db of None \<Rightarrow> True
     | Some ev \<Rightarrow> \<exists>c. origin k = Some c \<and> ec_event_id c = k \<and> ok c \<and> stored_row P c ev)"

definition queue_inv :: "gw_db \<Rightarrow> (string \<Rightarrow> event_create option) \<Rightarrow> bool" where
  "queue_inv db origin \<longleftrightarrow> (\<forall>k. (get_delivery k db \<noteq> None) = (map_option ev_status (get_event k db) = Some QUEUED))
     \<and> (\<forall>k d c. get_delivery k db = Some d \<longrightarrow> origin k = Some c \<longrightarrow> pd_payload d = payload_of c)"

definition flights_inv :: "(event_create \<Rightarrow> bool) \<Rightarrow> gw_db \<Rightarrow> (string \<Rightarrow> event_create option) \<Rightarrow> flight list \<Rightarrow> bool" where
  "flights_inv ok db origin fs \<longleftrightarrow> distinct (map flight_id (filter active fs))
     \<and> (\<forall>f \<in> set fs. flight_ok ok f) \<and> (\<forall>f \<in> set fs. active f \<longrightarrow> origin (flight_id f) = Some (fl_cmd f)
        \<and> map_option ev_status (get_event (flight_id f) db) = Some PENDING)"

fun worker_inv :: "gw_db \<Rightarrow> worker \<Rightarrow> bool" where
  "worker_inv db Idle = True"
| "worker_inv db (Delivering d ev tid pr) = (get_delivery (pd_event_id d) db = Some d \<and> get_event (pd_event_id d) db = Some ev)"
| "worker_inv db (Delivered d ev res) = (get_delivery (pd_event_id d) db = Some d \<and> get_event (pd_event_id d) db = Some ev)"

definition sys_inv :: "platform \<Rightarrow> (event_create \<Rightarrow> bool) \<Rightarrow> 'c system \<Rightarrow> bool" where
  "sys_inv P ok s \<longleftrightarrow> events_inv P ok (sy_db s) (sy_origin s) \<and> queue_inv (sy_db s) (sy_origin s)
     \<and> flights_inv ok (sy_db s) (sy_origin s) (sy_flights s) \<and> worker_inv (sy_db s) (sy_worker s)"

lemma sys_inv_initial: "sys_inv P ok (initial cl)"
  by (simp add: sys_inv_def initial_def events_inv_def queue_inv_def flights_inv_def get_event_def
      get_delivery_def empty_gw_db_def)

text \<open>The three invariants on the database depend on the two lookups only.\<close>

definition same_lookups :: "gw_db \<Rightarrow> gw_db \<Rightarrow> bool" where
  "same_lookups db db' \<longleftrightarrow> (\<forall>k. get_event k db' = get_event k db) \<and> (\<forall>k. get_delivery k db' = get_delivery k db)"

lemma same_tables_lookups: "same_tables db db' \<Longrightarrow> same_lookups db db'"
  by (simp add: same_lookups_def same_tablesD)

lemma same_lookups_refl [simp]: "same_lookups db db"
  by (simp add: same_lookups_def)

lemma worker_inv_turned [simp]: "worker_inv db (turned_worker d ev tid out) = worker_inv db (Delivering d ev tid NotBegun)"
  by (cases out) simp_all

lemma worker_inv_same: "same_lookups db db' \<Longrightarrow> worker_inv db' wk = worker_inv db wk"
  by (cases wk) (simp_all add: same_lookups_def)

lemma sys_inv_same:
  assumes "same_lookups (sy_db s) db'" and "sys_inv P ok s"
  shows "sys_inv P ok (s\<lparr>sy_db := db'\<rparr>)"
proof -
  from assms(1) have "get_event k db' = get_event k (sy_db s)" "get_delivery k db' = get_delivery k (sy_db s)" for k
    by (simp_all add: same_lookups_def)
  with assms show ?thesis
    by (simp add: sys_inv_def events_inv_def queue_inv_def flights_inv_def worker_inv_same)
qed

lemma flight_sel [simp]:
  "flight_id \<lparr>fl_env = e, fl_cmd = c, fl_stage = g\<rparr> = ec_event_id c"
  "active \<lparr>fl_env = e, fl_cmd = c, fl_stage = LookedUp db\<rparr> = False"
  "active \<lparr>fl_env = e, fl_cmd = c, fl_stage = Sending pr\<rparr> = True"
  "active \<lparr>fl_env = e, fl_cmd = c, fl_stage = Answered res\<rparr> = True"
  "flight_ok ok \<lparr>fl_env = e, fl_cmd = c, fl_stage = LookedUp db\<rparr> = (ok c \<and> get_event (ec_event_id c) db = None)"
  "flight_ok ok \<lparr>fl_env = e, fl_cmd = c, fl_stage = Sending pr\<rparr> = ok c"
  "flight_ok ok \<lparr>fl_env = e, fl_cmd = c, fl_stage = Answered res\<rparr> = ok c"
  by (simp_all add: flight_id_def active_def flight_ok_def)

lemma flight_turned [simp]:
  "active \<lparr>fl_env = e, fl_cmd = c, fl_stage = turned out\<rparr>"
  "flight_ok ok \<lparr>fl_env = e, fl_cmd = c, fl_stage = turned out\<rparr> = ok c"
  by (cases out; simp)+

lemma flights_inv_drop: "flights_inv ok db origin (xs @ f # ys) \<Longrightarrow> flights_inv ok db origin (xs @ ys)"
  by (auto simp: flights_inv_def split: if_splits)

lemma flights_inv_others:
  assumes "flights_inv ok db origin (xs @ f # ys)" and "active f"
  shows "\<forall>f' \<in> set (xs @ ys). active f' \<longrightarrow> flight_id f' \<noteq> flight_id f"
  using assms by (auto simp: flights_inv_def image_iff)

text \<open>An event changed by its own handler, or by the worker, is no other handler's event.\<close>

lemma flights_inv_upd:
  assumes "flights_inv ok db origin fs" and "\<And>f. f \<in> set fs \<Longrightarrow> active f \<Longrightarrow> flight_id f \<noteq> k"
    and "\<And>j. j \<noteq> k \<Longrightarrow> get_event j db' = get_event j db"
  shows "flights_inv ok db' origin fs"
  using assms by (auto simp: flights_inv_def)

lemma queue_inv_none:
  "queue_inv db origin \<Longrightarrow> map_option ev_status (get_event k db) \<noteq> Some QUEUED \<Longrightarrow> get_delivery k db = None"
  unfolding queue_inv_def by blast

lemma worker_inv_upd:
  assumes "worker_inv db wk" and "map_option ev_status (get_event k db) \<noteq> Some QUEUED" and "queue_inv db origin"
    and "\<And>j. j \<noteq> k \<Longrightarrow> get_event j db' = get_event j db \<and> get_delivery j db' = get_delivery j db"
  shows "worker_inv db' wk"
proof -
  from assms(2,3) have "get_delivery k db = None" by (auto intro: queue_inv_none)
  with assms(1,4) show ?thesis by (cases wk) (metis option.distinct(1) worker_inv.simps)+
qed

lemma sys_inv_insert:
  assumes "sys_inv P ok s" and "sy_flights s = xs @ \<lparr>fl_env = e, fl_cmd = c, fl_stage = LookedUp db\<rparr> # ys"
    and "submit_start P e (\<lambda>_. sy_db s) c db = (None, db')"
  shows "sys_inv P ok (s\<lparr>sy_db := db', sy_flights := xs @ \<lparr>fl_env = e, fl_cmd = c, fl_stage = Sending NotBegun\<rparr> # ys,
          sy_origin := (sy_origin s)(ec_event_id c \<mapsto> c)\<rparr>)"
proof -
  let ?k = "ec_event_id c"
  from submit_start_inserts [OF assms(3)]
  have fresh: "get_event ?k (sy_db s) = None"
    and ev: "\<And>k. get_event k db' = (if k = ?k then Some (stored_event P (new_event e c)) else get_event k (sy_db s))"
    and dl: "\<And>k. get_delivery k db' = get_delivery k (sy_db s)" by auto
  have inv: "events_inv P ok (sy_db s) (sy_origin s)" "queue_inv (sy_db s) (sy_origin s)"
    "flights_inv ok (sy_db s) (sy_origin s) (sy_flights s)" "worker_inv (sy_db s) (sy_worker s)"
    using assms(1) by (auto simp: sys_inv_def)
  from inv(2) fresh have none: "get_delivery ?k (sy_db s) = None" by (auto intro: queue_inv_none)
  have okc: "ok c" using inv(3) assms(2) by (auto simp: flights_inv_def)
  have other: "flight_id f \<noteq> ?k" if "f \<in> set xs \<union> set ys" "active f" for f
  proof
    assume "flight_id f = ?k"
    moreover have "map_option ev_status (get_event (flight_id f) (sy_db s)) = Some PENDING"
      using inv(3) that by (simp add: flights_inv_def assms(2))
    ultimately show False using fresh by simp
  qed
  have notin: "?k \<notin> flight_id ` {f \<in> set zs. active f}" if "set zs \<subseteq> set xs \<union> set ys" for zs
  proof
    assume "?k \<in> flight_id ` {f \<in> set zs. active f}"
    then obtain f where f: "f \<in> set zs" "active f" "?k = flight_id f" by (elim imageE CollectE conjE)
    with that have "f \<in> set xs \<union> set ys" by blast
    from other [OF this f(2)] f(3) show False by simp
  qed
  have "events_inv P ok db' ((sy_origin s)(?k \<mapsto> c))"
    unfolding events_inv_def
  proof
    fix k
    show "case get_event k db' of None \<Rightarrow> True
      | Some ev \<Rightarrow> \<exists>ca. ((sy_origin s)(?k \<mapsto> c)) k = Some ca \<and> ec_event_id ca = k \<and> ok ca \<and> stored_row P ca ev"
      using inv(1) [unfolded events_inv_def, rule_format, of k] ev [of k] okc stored_row_new [of P c e]
      by (cases "k = ?k") (auto split: option.splits)
  qed
  moreover have "queue_inv db' ((sy_origin s)(?k \<mapsto> c))"
    using inv(2) ev dl none fresh by (auto simp: queue_inv_def new_event_def)
  moreover have "flights_inv ok db' ((sy_origin s)(?k \<mapsto> c)) (xs @ \<lparr>fl_env = e, fl_cmd = c, fl_stage = Sending NotBegun\<rparr> # ys)"
    unfolding flights_inv_def
  proof (intro conjI ballI impI)
    show "distinct (map flight_id (filter active (xs @ \<lparr>fl_env = e, fl_cmd = c, fl_stage = Sending NotBegun\<rparr> # ys)))"
      using inv(3) notin [of xs] notin [of ys] by (simp add: flights_inv_def assms(2))
  next
    fix f
    assume f: "f \<in> set (xs @ \<lparr>fl_env = e, fl_cmd = c, fl_stage = Sending NotBegun\<rparr> # ys)"
    show "flight_ok ok f"
      using inv(3) f okc by (auto simp: flights_inv_def assms(2))
    assume act: "active f"
    consider "f = \<lparr>fl_env = e, fl_cmd = c, fl_stage = Sending NotBegun\<rparr>" | "f \<in> set xs \<union> set ys" using f by auto
    then have "((sy_origin s)(?k \<mapsto> c)) (flight_id f) = Some (fl_cmd f)
      \<and> map_option ev_status (get_event (flight_id f) db') = Some PENDING"
    proof cases
      case 1
      then show ?thesis by (simp add: ev new_event_def)
    next
      case 2
      with other [OF 2 act] inv(3) act show ?thesis by (simp add: ev flights_inv_def assms(2))
    qed
    then show "((sy_origin s)(?k \<mapsto> c)) (flight_id f) = Some (fl_cmd f)"
      "map_option ev_status (get_event (flight_id f) db') = Some PENDING" by simp_all
  qed
  moreover have "worker_inv db' (sy_worker s)"
    using worker_inv_upd [OF inv(4) _ inv(2), of ?k db'] fresh ev dl by auto
  ultimately show ?thesis by (simp add: sys_inv_def)
qed

text \<open>Both kinds of outcome: one event changes its status, and its delivery follows.\<close>

lemma sys_inv_outcome:
  assumes "sys_inv P ok s" and "get_event k (sy_db s) = Some ev"
    and "\<And>c. stored_row P c ev' = stored_row P c ev"
    and ev': "\<And>j. get_event j db' = (if j = k then Some ev' else get_event j (sy_db s))"
    and dl': "\<And>j. get_delivery j db' = (if j = k then od else get_delivery j (sy_db s))"
    and "(od \<noteq> None) = (ev_status ev' = QUEUED)"
    and "\<And>d c. od = Some d \<Longrightarrow> sy_origin s k = Some c \<Longrightarrow> pd_payload d = payload_of c"
    and "flights_inv ok (sy_db s) (sy_origin s) fs" and "\<And>f. f \<in> set fs \<Longrightarrow> active f \<Longrightarrow> flight_id f \<noteq> k"
    and "worker_inv db' wk"
  shows "sys_inv P ok (s\<lparr>sy_db := db', sy_flights := fs, sy_worker := wk\<rparr>)"
proof -
  have inv: "events_inv P ok (sy_db s) (sy_origin s)" "queue_inv (sy_db s) (sy_origin s)"
    using assms(1) by (auto simp: sys_inv_def)
  have "events_inv P ok db' (sy_origin s)"
    unfolding events_inv_def
  proof
    fix j
    show "case get_event j db' of None \<Rightarrow> True
      | Some ev \<Rightarrow> \<exists>c. sy_origin s j = Some c \<and> ec_event_id c = j \<and> ok c \<and> stored_row P c ev"
      using inv(1) [unfolded events_inv_def, rule_format, of j] assms(2,3) ev' [of j] by auto
  qed
  moreover have "queue_inv db' (sy_origin s)"
    using inv(2) ev' dl' assms(6,7) by (auto simp: queue_inv_def)
  moreover have "flights_inv ok db' (sy_origin s) fs"
    using flights_inv_upd [OF assms(8,9)] ev' by simp
  ultimately show ?thesis using assms(10) by (simp add: sys_inv_def)
qed

lemma sys_inv_flights:
  "sys_inv P ok s \<Longrightarrow> flights_inv ok (sy_db s) (sy_origin s) fs \<Longrightarrow> sys_inv P ok (s\<lparr>sy_flights := fs\<rparr>)"
  by (simp add: sys_inv_def)

lemma active_event:
  assumes "sys_inv P ok s" and "sy_flights s = xs @ f # ys" and "active f"
  shows "\<exists>ev. get_event (flight_id f) (sy_db s) = Some ev \<and> ev_status ev = PENDING
    \<and> sy_origin s (flight_id f) = Some (fl_cmd f) \<and> ok (fl_cmd f) \<and> stored_row P (fl_cmd f) ev
    \<and> get_delivery (flight_id f) (sy_db s) = None
    \<and> (\<forall>f' \<in> set (xs @ ys). active f' \<longrightarrow> flight_id f' \<noteq> flight_id f)"
proof -
  have inv: "events_inv P ok (sy_db s) (sy_origin s)" "queue_inv (sy_db s) (sy_origin s)"
    "flights_inv ok (sy_db s) (sy_origin s) (xs @ f # ys)"
    using assms(1,2) by (auto simp: sys_inv_def)
  from inv(3) assms(3) have f: "ok (fl_cmd f)" "sy_origin s (flight_id f) = Some (fl_cmd f)"
    "map_option ev_status (get_event (flight_id f) (sy_db s)) = Some PENDING"
    by (simp_all add: flights_inv_def flight_ok_def)
  then obtain ev where ev: "get_event (flight_id f) (sy_db s) = Some ev" "ev_status ev = PENDING" by auto
  have "stored_row P (fl_cmd f) ev"
    using inv(1) [unfolded events_inv_def, rule_format, of "flight_id f"] ev f(2) by auto
  moreover have "get_delivery (flight_id f) (sy_db s) = None"
    by (rule queue_inv_none [OF inv(2)]) (simp add: f(3))
  ultimately show ?thesis using f ev flights_inv_others [OF inv(3) assms(3)] by blast
qed

lemma sys_inv_finish:
  assumes "sys_inv P ok s" and fl: "sy_flights s = xs @ \<lparr>fl_env = e, fl_cmd = c, fl_stage = Answered res\<rparr> # ys"
    and ac: "after_call P st e c res (sy_db s) = (out, db')"
  shows "sys_inv P ok (s\<lparr>sy_db := db', sy_flights := xs @ ys\<rparr>)"
proof -
  let ?k = "ec_event_id c"
  obtain ev where ev: "get_event ?k (sy_db s) = Some ev" "ev_status ev = PENDING" "sy_origin s ?k = Some c"
    "get_delivery ?k (sy_db s) = None" "\<forall>f' \<in> set (xs @ ys). active f' \<longrightarrow> flight_id f' \<noteq> ?k"
    using active_event [OF assms(1) fl] by auto
  let ?ev = "touched P e res (final_status st res) ev"
  let ?od = "if final_status st res = QUEUED then Some (queued_delivery P e c (sy_db s)) else None"
  note spec = after_call_spec [OF ac ev(1)]
  have flights: "flights_inv ok (sy_db s) (sy_origin s) (xs @ ys)"
    using assms(1) fl by (auto simp: sys_inv_def dest: flights_inv_drop)
  have queue: "queue_inv (sy_db s) (sy_origin s)" and wk: "worker_inv (sy_db s) (sy_worker s)"
    using assms(1) by (auto simp: sys_inv_def)
  have "sys_inv P ok (s\<lparr>sy_db := db', sy_flights := xs @ ys, sy_worker := sy_worker s\<rparr>)"
  proof (rule sys_inv_outcome [OF assms(1) ev(1), where ev' = ?ev and od = ?od])
    show "get_event j db' = (if j = ?k then Some ?ev else get_event j (sy_db s))" for j using spec by blast
    show "get_delivery j db' = (if j = ?k then ?od else get_delivery j (sy_db s))" for j
      using spec ev(4) by (cases "j = ?k") auto
    show "(?od \<noteq> None) = (ev_status ?ev = QUEUED)"
      using ev(2) by (cases res) (auto simp: touched_def final_status_def)
    show "pd_payload d = payload_of c'" if "?od = Some d" "sy_origin s ?k = Some c'" for d c'
      using that ev(3,4) by (auto simp: queued_delivery_def split: if_splits)
    show "worker_inv db' (sy_worker s)"
      using worker_inv_upd [OF wk _ queue, of ?k db'] ev(1,2) spec by auto
  qed (use flights ev(5) in auto)
  then show ?thesis by simp
qed

lemma sys_inv_worker_done:
  assumes "sys_inv P ok s" and wk: "sy_worker s = Delivered d ev res"
    and ad: "after_delivery P st e j d ev res (sy_db s) = (out, db')"
  shows "sys_inv P ok (s\<lparr>sy_db := db', sy_worker := Idle\<rparr>)"
proof -
  let ?k = "pd_event_id d"
  have at: "get_delivery ?k (sy_db s) = Some d" "get_event ?k (sy_db s) = Some ev"
    and queue: "queue_inv (sy_db s) (sy_origin s)"
    and flights: "flights_inv ok (sy_db s) (sy_origin s) (sy_flights s)"
    using assms(1) wk by (auto simp: sys_inv_def)
  have queued: "ev_status ev = QUEUED" using queue at unfolding queue_inv_def by force
  have pay: "pd_payload d = payload_of c" if "sy_origin s ?k = Some c" for c
    using queue at(1) that unfolding queue_inv_def by blast
  have mine: "flight_id f \<noteq> ?k" if "f \<in> set (sy_flights s)" "active f" for f
    using flights that queued at(2) by (auto simp: flights_inv_def)
  note spec = after_delivery_spec [OF ad get_event_Some_id [OF at(2)] refl]
  show ?thesis
  proof (cases res)
    case (Crashed m)
    with spec assms(1) show ?thesis by (simp add: sys_inv_def)
  next
    case (Got r)
    define s' where "s' = (if 400 \<le> rs_status r then FAILED else APPLIED)"
    from spec Got at obtain a where db': "db' = settle P s' (now e) ?k a (sy_db s)" by (auto simp: s'_def)
    have "sys_inv P ok (s\<lparr>sy_db := db', sy_flights := sy_flights s, sy_worker := Idle\<rparr>)"
    proof (rule sys_inv_outcome [OF assms(1) at(2), where ev' = "set_status P s' (now e) ev" and od = None])
      show "get_event i db' = (if i = ?k then Some (set_status P s' (now e) ev) else get_event i (sy_db s))" for i
        using at(2) by (simp add: db')
      show "get_delivery i db' = (if i = ?k then None else get_delivery i (sy_db s))" for i by (simp add: db')
    qed (use flights mine in \<open>auto simp: s'_def\<close>)
    then show ?thesis by simp
  next
    case (Unavailable m)
    from spec Unavailable at(1) obtain n err nx t a where db': "db' = postpone P n err nx t ?k a (sy_db s)"
      by auto
    have "sys_inv P ok (s\<lparr>sy_db := db', sy_flights := sy_flights s, sy_worker := Idle\<rparr>)"
    proof (rule sys_inv_outcome [OF assms(1) at(2), where ev' = ev and od = "Some (set_rescheduled P n err nx t d)"])
      show "get_event i db' = (if i = ?k then Some ev else get_event i (sy_db s))" for i
        using at(2) by (simp add: db')
      show "get_delivery i db' = (if i = ?k then Some (set_rescheduled P n err nx t d) else get_delivery i (sy_db s))"
        for i using at(1) by (simp add: db')
    qed (use flights mine queued pay in auto)
    then show ?thesis by simp
  qed
qed

lemma sys_inv_stored_only:
  assumes "sys_inv P ok s" and fl: "sy_flights s = xs @ \<lparr>fl_env = e, fl_cmd = c, fl_stage = LookedUp db\<rparr> # ys"
    and "gw_commit P [InsEvent (new_event e c)] (sy_db s) = (None, db')"
  shows "sys_inv P ok (s\<lparr>sy_db := db', sy_flights := xs @ ys, sy_origin := (sy_origin s)(ec_event_id c \<mapsto> c)\<rparr>)"
proof -
  have "get_event (ec_event_id c) db = None" using assms(1) fl by (auto simp: sys_inv_def flights_inv_def)
  then obtain db2 where db2: "submit_start P e (\<lambda>_. sy_db s) c db = (None, db2)" "same_tables db2 db'"
    using assms(3) by (rule stored_only_tables)
  note inv = sys_inv_insert [OF assms(1) fl db2(1)]
  from sys_inv_same [OF _ inv, of db'] same_tables_lookups [OF db2(2)]
  show ?thesis by (auto simp: sys_inv_def dest: flights_inv_drop)
qed

lemma sys_inv_saved_only:
  assumes "sys_inv P ok s" and fl: "sy_flights s = xs @ \<lparr>fl_env = e, fl_cmd = c, fl_stage = Answered res\<rparr> # ys"
    and "saved_status st res = Some t" and "gw_commit P [UpdEvent (ec_event_id c) t (now e)] (sy_db s) = (None, db')"
  shows "sys_inv P ok (s\<lparr>sy_db := db', sy_flights := xs @ ys\<rparr>)"
proof -
  obtain out db2 where db2: "after_call P st e c res (sy_db s) = (out, db2)" "same_tables db2 db'"
    using assms(3,4) by (rule saved_only_tables)
  note inv = sys_inv_finish [OF assms(1) fl db2(1)]
  from sys_inv_same [OF _ inv, of db'] same_tables_lookups [OF db2(2)]
  show ?thesis by (simp add: sys_inv_def)
qed

text \<open>Every step keeps the invariant.\<close>

lemma sys_inv_step:
  assumes "step P st send drift ok s s'" and "sys_inv P ok s"
  shows "sys_inv P ok s'"
  using assms
proof (cases rule: step.cases)
  case (known c ev e out db')
  with submit_start_same [OF known(3)] have "same_tables (sy_db s) db'" by simp
  with known assms(2) show ?thesis by (auto intro: sys_inv_same same_tables_lookups)
next
  case (look_up c e)
  with assms(2) show ?thesis
    by (auto intro!: sys_inv_flights simp: sys_inv_def flights_inv_def)
next
  case (insert xs e c db ys db')
  with assms(2) show ?thesis by (auto intro: sys_inv_insert)
next
  case (lost_race xs e c db ys out db')
  from assms(2) lost_race(2) have "get_event (ec_event_id c) db = None"
    and flights: "flights_inv ok (sy_db s) (sy_origin s) (xs @ ys)"
    by (auto simp: sys_inv_def flights_inv_def split: if_splits)
  with submit_start_same [OF lost_race(3)] have "same_lookups (sy_db s) db'"
    by (auto intro: same_tables_lookups)
  with sys_inv_same [of "s\<lparr>sy_flights := xs @ ys\<rparr>" db' P ok] sys_inv_flights [OF assms(2) flights] lost_race(1)
  show ?thesis by (simp add: sys_inv_def)
next
  case (call xs e c pr ys out cl)
  with assms(2) show ?thesis by (auto simp: sys_inv_def flights_inv_def)
next
  case (finish xs e c res ys out db')
  with assms(2) show ?thesis by (auto intro: sys_inv_finish)
next
  case (stored_only xs e c db ys db')
  with assms(2) show ?thesis by (auto intro: sys_inv_stored_only)
next
  case (saved_only xs e c res ys t db')
  with assms(2) show ?thesis by (auto intro: sys_inv_saved_only)
next
  case (cut_off xs f ys)
  with assms(2) show ?thesis by (auto intro!: sys_inv_flights simp: sys_inv_def dest: flights_inv_drop)
next
  case (pick k d ev fresh)
  with assms(2) get_delivery_Some_id [OF pick(3)] show ?thesis by (simp add: sys_inv_def)
next
  case (orphan k d out db')
  from assms(2) have "queue_inv (sy_db s) (sy_origin s)" by (simp add: sys_inv_def)
  from queue_inv_none [OF this, of k] orphan show ?thesis by simp
next
  case (deliver d ev tid pr out cl)
  with assms(2) show ?thesis by (simp add: sys_inv_def)
next
  case (worker_done d ev res e j out db')
  with assms(2) show ?thesis by (auto intro: sys_inv_worker_done)
next
  case worker_cut_off
  with assms(2) show ?thesis by (simp add: sys_inv_def)
next
  case (elsewhere cl)
  with assms(2) show ?thesis by (simp add: sys_inv_def)
qed

lemma reachable_inv: "reachable P st send drift ok cl s \<Longrightarrow> sys_inv P ok s"
  unfolding reachable_def
proof (induction rule: rtranclp_induct)
  case base
  then show ?case by (rule sys_inv_initial)
next
  case (step s s')
  then show ?case by (blast intro: sys_inv_step)
qed

section \<open>Properties of the gateway\<close>

text \<open>
  C8. In every reachable state of the gateway, whatever the interleaving of handlers and worker, the
  call results, and the points where a handler or the worker is cut off, be it between two commits: there is a delivery for an
  event exactly when the event is \<open>QUEUED\<close>, and it carries the payload of the request that stored the
  event; and every event has the data of that request.
\<close>

theorem queue_matches_events:
  assumes "reachable P st send drift ok cl s"
  shows "(get_delivery k (sy_db s) \<noteq> None) = (map_option ev_status (get_event k (sy_db s)) = Some QUEUED)
    \<and> (\<forall>ev. get_event k (sy_db s) = Some ev \<longrightarrow>
        (\<exists>c. sy_origin s k = Some c \<and> ok c \<and> stored_row P c ev
          \<and> (\<forall>d. get_delivery k (sy_db s) = Some d \<longrightarrow> pd_payload d = payload_of c)))"
proof -
  from reachable_inv [OF assms] have "events_inv P ok (sy_db s) (sy_origin s)" "queue_inv (sy_db s) (sy_origin s)"
    by (simp_all add: sys_inv_def)
  then have "(get_delivery k (sy_db s) \<noteq> None) = (map_option ev_status (get_event k (sy_db s)) = Some QUEUED)"
    and "\<And>d c. get_delivery k (sy_db s) = Some d \<Longrightarrow> sy_origin s k = Some c \<Longrightarrow> pd_payload d = payload_of c"
    and "case get_event k (sy_db s) of None \<Rightarrow> True
      | Some ev \<Rightarrow> \<exists>c. sy_origin s k = Some c \<and> ec_event_id c = k \<and> ok c \<and> stored_row P c ev"
    unfolding events_inv_def queue_inv_def by blast+
  then show ?thesis by (auto split: option.splits)
qed

text \<open>The changes of status: the life of an event.\<close>

fun may_become :: "proc_status \<Rightarrow> proc_status \<Rightarrow> bool" where
  "may_become PENDING t = True"
| "may_become QUEUED t = (t \<noteq> PENDING)"
| "may_become APPLIED t = (t = APPLIED)"
| "may_become FAILED t = (t = FAILED)"

lemma may_become_refl [simp]: "may_become s s"
  by (cases s) auto

text \<open>An event through a step: it stays, with its data, and its status moves forward if at all.\<close>

definition evolves :: "event_row \<Rightarrow> event_row \<Rightarrow> bool" where
  "evolves ev ev' \<longleftrightarrow> ev\<lparr>ev_status := ev_status ev', ev_updated := ev_updated ev'\<rparr> = ev'
     \<and> may_become (ev_status ev) (ev_status ev')"

lemma evolves_refl [simp]: "evolves ev ev"
  by (simp add: evolves_def)

lemma evolves_set_status: "may_become (ev_status ev) t \<Longrightarrow> evolves ev (set_status P t u ev)"
  by (simp add: evolves_def set_status_def)

lemma may_become_trans: "may_become s t \<Longrightarrow> may_become t u \<Longrightarrow> may_become s u"
  by (cases s; cases t) auto

lemma evolves_trans: "evolves ev ev1 \<Longrightarrow> evolves ev1 ev2 \<Longrightarrow> evolves ev ev2"
  by (cases ev; cases ev1; cases ev2) (auto simp: evolves_def intro: may_become_trans)

lemma evolves_touched:
  assumes "ev_status ev = PENDING"
  shows "evolves ev (touched P e res t ev)"
  using assms by (cases res) (auto simp: touched_def evolves_set_status)

lemma step_evolves:
  assumes "step P st send drift ok s s'" and "sys_inv P ok s" and ev: "get_event k (sy_db s) = Some ev"
  shows "\<exists>ev'. get_event k (sy_db s') = Some ev' \<and> evolves ev ev'"
  using assms(1)
proof (cases rule: step.cases)
  case (known c ev e out db')
  with submit_start_same [OF known(3)] ev same_tablesD [of "sy_db s" db' k] show ?thesis by simp
next
  case (insert xs e c db ys db')
  with submit_start_inserts [OF insert(3)] ev show ?thesis by auto
next
  case (lost_race xs e c db ys out db')
  from assms(2) lost_race(2) have "get_event (ec_event_id c) db = None"
    by (auto simp: sys_inv_def flights_inv_def)
  with submit_start_same [OF lost_race(3)] ev same_tablesD [of "sy_db s" db' k] lost_race show ?thesis by simp
next
  case (finish xs e c res ys out db')
  from active_event [OF assms(2) finish(2)] obtain ev0
    where ev0: "get_event (ec_event_id c) (sy_db s) = Some ev0" "ev_status ev0 = PENDING" by auto
  with after_call_spec [OF finish(3) ev0(1)] finish(1) ev evolves_touched [OF ev0(2)] show ?thesis by auto
next
  case (stored_only xs e c db ys db')
  with ev show ?thesis by (auto simp: gw_commit_insert split: option.splits)
next
  case (saved_only xs e c res ys t db')
  from active_event [OF assms(2) saved_only(2)] obtain ev0
    where ev0: "get_event (ec_event_id c) (sy_db s) = Some ev0" "ev_status ev0 = PENDING" by auto
  with saved_only(1,4) ev evolves_set_status [of ev0 t P "now e"] show ?thesis by (auto simp: gw_commit_status)
next
  case (orphan j d out db')
  with ev show ?thesis by (auto simp: commit_then_def gw_commit_def get_event_def split: prod.splits)
next
  case (worker_done d evd res e j out db')
  let ?k = "pd_event_id d"
  have at: "get_delivery ?k (sy_db s) = Some d" "get_event ?k (sy_db s) = Some evd"
    and queue: "queue_inv (sy_db s) (sy_origin s)"
    using assms(2) worker_done(2) by (auto simp: sys_inv_def)
  have queued: "ev_status evd = QUEUED" using queue at unfolding queue_inv_def by force
  note spec = after_delivery_spec [OF worker_done(3) get_event_Some_id [OF at(2)] refl]
  show ?thesis
  proof (cases res)
    case (Got r)
    with spec at obtain t a where "t \<noteq> PENDING" "db' = settle P t (now e) ?k a (sy_db s)" by (auto split: if_splits)
    with worker_done(1) ev at queued evolves_set_status [of evd t P "now e"] show ?thesis by auto
  next
    case (Unavailable m)
    with spec at worker_done(1) ev show ?thesis by (auto split: if_splits)
  next
    case (Crashed m)
    with spec worker_done(1) ev show ?thesis by auto
  qed
qed (use ev in auto)

text \<open>
  C9. The life of an event, over any run of the gateway from any reachable state: it is never
  deleted, nothing of it changes but its status and update time, and the status only moves forward,
  from \<open>PENDING\<close> to \<open>QUEUED\<close>, \<open>APPLIED\<close> or \<open>FAILED\<close> and from \<open>QUEUED\<close> to \<open>APPLIED\<close> or \<open>FAILED\<close>;
  \<open>APPLIED\<close> and \<open>FAILED\<close> are final.
\<close>

theorem event_life:
  assumes "reachable P st send drift ok cl s" and "(step P st send drift ok)\<^sup>*\<^sup>* s s'" and "get_event k (sy_db s) = Some ev"
  shows "\<exists>ev'. get_event k (sy_db s') = Some ev' \<and> ev\<lparr>ev_status := ev_status ev', ev_updated := ev_updated ev'\<rparr> = ev'
    \<and> may_become (ev_status ev) (ev_status ev') \<and> (terminal (ev_status ev) \<longrightarrow> ev_status ev' = ev_status ev)"
proof -
  from assms(2) have "\<exists>ev'. get_event k (sy_db s') = Some ev' \<and> evolves ev ev' \<and> sys_inv P ok s'"
  proof (induction rule: rtranclp_induct)
    case base
    with assms(3) reachable_inv [OF assms(1)] show ?case by auto
  next
    case (step s1 s2)
    then obtain ev1 where ev1: "get_event k (sy_db s1) = Some ev1" "evolves ev ev1" "sys_inv P ok s1" by blast
    with step_evolves [OF step(2)] obtain ev2 where ev2: "get_event k (sy_db s2) = Some ev2" "evolves ev1 ev2" by blast
    have "evolves ev ev2" by (rule evolves_trans [OF ev1(2) ev2(2)])
    with ev2 sys_inv_step [OF step(2) ev1(3)] show ?case by blast
  qed
  then obtain ev' where "get_event k (sy_db s') = Some ev'" "evolves ev ev'" by blast
  moreover from this have "terminal (ev_status ev) \<longrightarrow> ev_status ev' = ev_status ev"
    by (auto simp: evolves_def terminal_def)
  ultimately show ?thesis by (auto simp: evolves_def)
qed

section \<open>The code's own runs\<close>

text \<open>A gateway between two actions, and the actions of a server that does one thing at a time.\<close>

definition at_rest :: "gw_db \<Rightarrow> 'c \<Rightarrow> (string \<Rightarrow> event_create option) \<Rightarrow> 'c system" where
  "at_rest db cl origin = \<lparr>sy_db = db, sy_client = cl, sy_flights = [], sy_worker = Idle, sy_origin = origin\<rparr>"

datatype action = Submit env event_create | Poll datetime "nat \<Rightarrow> tick"

fun act :: "platform \<Rightarrow> settings \<Rightarrow> 'c caller \<Rightarrow> action \<Rightarrow> 'c gateway \<Rightarrow> 'c gateway" where
  "act P st call (Submit e c) g = snd (submit P st e id id call c g)"
| "act P st call (Poll t tks) g = snd (process_once P st t tks call g)"

fun action_ok :: "(event_create \<Rightarrow> bool) \<Rightarrow> action \<Rightarrow> bool" where
  "action_ok ok (Submit e c) = ok c"
| "action_ok ok (Poll t tks) = (\<forall>i. tk_others (tks i) = id)"

lemma at_rest_sel [simp]:
  "sy_db (at_rest db cl origin) = db" "sy_client (at_rest db cl origin) = cl" "sy_flights (at_rest db cl origin) = []"
  "sy_worker (at_rest db cl origin) = Idle" "sy_origin (at_rest db cl origin) = origin"
  by (simp_all add: at_rest_def)

text \<open>
  A call whose turns follow one another, and what it means that the turns \<open>send\<close> are those of the whole call
  \<open>call\<close>.
\<close>

inductive finishes :: "'c sender \<Rightarrow> string \<Rightarrow> payload \<Rightarrow> progress \<Rightarrow> 'c \<Rightarrow> call_result \<Rightarrow> 'c \<Rightarrow> bool" for send tid p where
  last_turn: "send tid p pr cl = (Inl res, cl') \<Longrightarrow> finishes send tid p pr cl res cl'"
| next_turn: "send tid p pr cl = (Inr pr', cl1) \<Longrightarrow> finishes send tid p pr' cl1 res cl'
    \<Longrightarrow> finishes send tid p pr cl res cl'"

definition realises :: "'c sender \<Rightarrow> 'c caller \<Rightarrow> bool" where
  "realises send call \<longleftrightarrow> (\<forall>tid p cl. finishes send tid p NotBegun cl (fst (call tid p cl)) (snd (call tid p cl)))"

definition at_once :: "'c caller \<Rightarrow> 'c sender" where
  "at_once call tid p pr cl = (let (res, cl') = call tid p cl in (Inl res, cl'))"

lemma at_once_realises: "realises (at_once call) call"
  unfolding realises_def at_once_def by (intro allI finishes.last_turn) (simp add: case_prod_unfold Let_def)

lemma handler_turns:
  assumes "finishes send (trace e) (payload_of c) pr cl res cl'"
  shows "sy_client s = cl \<Longrightarrow> sy_flights s = [\<lparr>fl_env = e, fl_cmd = c, fl_stage = Sending pr\<rparr>] \<Longrightarrow>
    (step P st send drift ok)\<^sup>*\<^sup>* s (s\<lparr>sy_client := cl', sy_flights := [\<lparr>fl_env = e, fl_cmd = c, fl_stage = Answered res\<rparr>]\<rparr>)"
  using assms
proof (induction arbitrary: s rule: finishes.induct)
  case (last_turn pr cl res cl')
  with step.call [of s "[]" e c pr "[]" send "Inl res" cl' P st drift ok] show ?case by (simp add: r_into_rtranclp)
next
  case (next_turn pr cl pr' cl1 res cl')
  let ?s = "s\<lparr>sy_client := cl1, sy_flights := [\<lparr>fl_env = e, fl_cmd = c, fl_stage = Sending pr'\<rparr>]\<rparr>"
  from next_turn step.call [of s "[]" e c pr "[]" send "Inr pr'" cl1 P st drift ok] have "step P st send drift ok s ?s" by simp
  with next_turn.IH [of ?s] show ?case by (simp add: converse_rtranclp_into_rtranclp)
qed

lemma worker_turns:
  assumes "finishes send tid (pd_payload d) pr cl res cl'"
  shows "sy_client s = cl \<Longrightarrow> sy_worker s = Delivering d ev tid pr \<Longrightarrow>
    (step P st send drift ok)\<^sup>*\<^sup>* s (s\<lparr>sy_client := cl', sy_worker := Delivered d ev res\<rparr>)"
  using assms
proof (induction arbitrary: s rule: finishes.induct)
  case (last_turn pr cl res cl')
  with step.deliver [of s d ev tid pr send "Inl res" cl' P st drift ok] show ?case by (simp add: r_into_rtranclp)
next
  case (next_turn pr cl pr' cl1 res cl')
  let ?s = "s\<lparr>sy_client := cl1, sy_worker := Delivering d ev tid pr'\<rparr>"
  from next_turn step.deliver [of s d ev tid pr send "Inr pr'" cl1 P st drift ok] have "step P st send drift ok s ?s" by simp
  with next_turn.IH [of ?s] show ?case by (simp add: converse_rtranclp_into_rtranclp)
qed

lemma submit_run:
  assumes "ok c" and "realises send call"
  shows "\<exists>o'. (step P st send drift ok)\<^sup>*\<^sup>* (at_rest (gw_db g) (gw_client g) origin)
    (at_rest (gw_db (snd (submit P st e id id call c g))) (gw_client (snd (submit P st e id id call c g))) o')"
proof -
  let ?step = "step P st send drift ok" and ?s = "at_rest (gw_db g) (gw_client g) origin"
  obtain r db1 where start: "submit_start P e id c (gw_db g) = (r, db1)" by fastforce
  show ?thesis
  proof (cases "get_event (ec_event_id c) (gw_db g)")
    case (Some ev)
    with submit_start_known [OF Some, of P e id] start obtain out where r: "r = Some out" by auto
    have "?step ?s (?s\<lparr>sy_db := db1\<rparr>)"
      using step.known [of c ?s ev P e out db1 st send drift ok] Some start r by simp
    then have "?step\<^sup>*\<^sup>* ?s (at_rest db1 (gw_client g) origin)" by (simp add: at_rest_def r_into_rtranclp)
    with start r show ?thesis by (auto simp: submit_def)
  next
    case None
    let ?f = "\<lambda>g. \<lparr>fl_env = e, fl_cmd = c, fl_stage = g\<rparr>"
    have r: "r = None" using submit_start_new [of c "gw_db g" id P e] None start by simp
    obtain res cl where call: "call (trace e) (payload_of c) (gw_client g) = (res, cl)" by fastforce
    obtain out db2 where ac: "after_call P st e c res db1 = (out, db2)" by fastforce
    let ?o = "origin(ec_event_id c \<mapsto> c)"
    let ?s1 = "?s\<lparr>sy_flights := [?f (LookedUp (gw_db g))]\<rparr>"
    let ?s2 = "(at_rest db1 (gw_client g) ?o)\<lparr>sy_flights := [?f (Sending NotBegun)]\<rparr>"
    let ?s3 = "(at_rest db1 cl ?o)\<lparr>sy_flights := [?f (Answered res)]\<rparr>"
    have "?step ?s ?s1" using step.look_up [of ok c ?s P st send drift e] assms None by simp
    moreover have "submit_start P e (\<lambda>_. gw_db g) c (gw_db g) = (None, db1)"
      using start r by (simp only: submit_start_def id_apply)
    then have "?step ?s1 ?s2"
      using step.insert [of ?s1 "[]" e c "gw_db g" "[]" P db1 st send drift ok] by (simp add: at_rest_def)
    moreover have "finishes send (trace e) (payload_of c) NotBegun (gw_client g) res cl"
      using assms(2) call unfolding realises_def by (metis fst_conv snd_conv)
    then have "?step\<^sup>*\<^sup>* ?s2 ?s3"
      using handler_turns [of send e c NotBegun "gw_client g" res cl ?s2 P st drift ok] by (simp add: at_rest_def)
    moreover have "?step ?s3 (at_rest db2 cl ?o)"
      using step.finish [of ?s3 "[]" e c res "[]" P st out db2 send drift ok] ac by (simp add: at_rest_def)
    ultimately have "?step\<^sup>*\<^sup>* ?s (at_rest db2 cl ?o)"
      by (meson converse_rtranclp_into_rtranclp rtranclp.rtrancl_into_rtrancl)
    with start r call ac show ?thesis by (auto simp: submit_def)
  qed
qed

lemma process_event_run:
  assumes "tk_others tk = id" and "realises send call"
  shows "(step P st send drift ok)\<^sup>*\<^sup>* (at_rest (gw_db g) (gw_client g) origin)
    (at_rest (gw_db (snd (process_event P st tk call k g))) (gw_client (snd (process_event P st tk call k g))) origin)"
proof (cases "get_delivery k (gw_db g)")
  case None
  then show ?thesis by (simp add: process_event_def)
next
  case (Some d)
  let ?step = "step P st send drift ok" and ?s = "at_rest (gw_db g) (gw_client g) origin"
  show ?thesis
  proof (cases "get_event k (gw_db g)")
    case None
    obtain out db where c: "commit_then P [DelDelivery k] False (gw_db g) = (out, db)" by fastforce
    with step.orphan [of ?s k d P out db st send drift ok] Some None have "?step ?s (at_rest db (gw_client g) origin)"
      by (simp add: at_rest_def)
    with Some None c show ?thesis by (simp add: process_event_def r_into_rtranclp)
  next
    case ev: (Some ev)
    let ?e = "(tk_env tk)\<lparr>trace := normalize_trace_id (tk_fresh tk) (Some (pd_trace d))\<rparr>"
    obtain res cl where call: "call (trace ?e) (pd_payload d) (gw_client g) = (res, cl)" by fastforce
    obtain out db where ad: "after_delivery P st ?e (tk_jitter tk) d ev res (gw_db g) = (out, db)" by fastforce
    let ?s1 = "?s\<lparr>sy_worker := Delivering d ev (trace ?e) NotBegun\<rparr>"
    let ?s2 = "(at_rest (gw_db g) cl origin)\<lparr>sy_worker := Delivered d ev res\<rparr>"
    have "?step ?s ?s1" using step.pick [of ?s k d ev P st send drift ok "tk_fresh tk"] Some ev by simp
    moreover have "finishes send (trace ?e) (pd_payload d) NotBegun (gw_client g) res cl"
      using assms(2) call unfolding realises_def by (metis fst_conv snd_conv)
    then have "?step\<^sup>*\<^sup>* ?s1 ?s2"
      using worker_turns [of send "trace ?e" d NotBegun "gw_client g" res cl ?s1 ev P st drift ok] by (simp add: at_rest_def)
    moreover have "?step ?s2 (at_rest db cl origin)"
      using step.worker_done [of ?s2 d ev res P st ?e "tk_jitter tk" out db send drift ok] ad by (simp add: at_rest_def)
    ultimately have "?step\<^sup>*\<^sup>* ?s (at_rest db cl origin)"
      by (meson converse_rtranclp_into_rtranclp rtranclp.rtrancl_into_rtrancl)
    with Some ev call ad assms show ?thesis by (simp add: process_event_def)
  qed
qed

lemma process_all_run:
  assumes "\<forall>i. tk_others (tks i) = id" and "realises send call"
  shows "(step P st send drift ok)\<^sup>*\<^sup>* (at_rest (gw_db g) (gw_client g) origin)
    (at_rest (gw_db (snd (process_all P st tks call ks i n g))) (gw_client (snd (process_all P st tks call ks i n g))) origin)"
proof (induction ks arbitrary: i n g)
  case Nil
  then show ?case by simp
next
  case (Cons k ks)
  obtain out g' where pe: "process_event P st (tks i) call k g = (out, g')" by fastforce
  from process_event_run [of "tks i" send call P st drift ok g origin k] assms pe
  have "(step P st send drift ok)\<^sup>*\<^sup>* (at_rest (gw_db g) (gw_client g) origin) (at_rest (gw_db g') (gw_client g') origin)"
    by simp
  with Cons.IH [of g'] pe show ?case by (cases out) (auto intro: rtranclp_trans)
qed

lemma act_run:
  assumes "action_ok ok a" and "realises send call"
  shows "\<exists>o'. (step P st send drift ok)\<^sup>*\<^sup>* (at_rest (gw_db g) (gw_client g) origin)
    (at_rest (gw_db (act P st call a g)) (gw_client (act P st call a g)) o')"
proof (cases a)
  case (Submit e c)
  with submit_run [of ok c send call] assms show ?thesis by simp
next
  case (Poll t tks)
  let ?ks = "due_event_ids (st_batch_size st) t (gw_db g)"
  have depth: "gw_db (set_depth g') = gw_db g'" "gw_client (set_depth g') = gw_client g'" for g' :: "'a gateway"
    by (simp_all add: set_depth_def)
  obtain out g' where pa: "process_all P st tks call ?ks 0 0 (set_depth g) = (out, g')" by fastforce
  then have "gw_db (act P st call a g) = gw_db g' \<and> gw_client (act P st call a g) = gw_client g'"
    by (cases out) (simp_all add: Poll process_once_def depth)
  with process_all_run [of tks send call P st drift ok "set_depth g" origin ?ks 0 0] pa assms show ?thesis
    by (auto simp: Poll depth)
qed

text \<open>Runs of the code one after the other, from an empty database.\<close>

lemma actions_run:
  assumes "list_all (action_ok ok) as" and "realises send call"
  shows "\<exists>o'. (step P st send drift ok)\<^sup>*\<^sup>* (at_rest (gw_db g) (gw_client g) origin)
    (at_rest (gw_db (fold (act P st call) as g)) (gw_client (fold (act P st call) as g)) o')"
  using assms(1)
proof (induction as arbitrary: g origin)
  case Nil
  then show ?case by auto
next
  case (Cons a as)
  from Cons.prems act_run [OF _ assms(2), of ok a P st drift g origin] obtain o1 where
    "(step P st send drift ok)\<^sup>*\<^sup>* (at_rest (gw_db g) (gw_client g) origin)
      (at_rest (gw_db (act P st call a g)) (gw_client (act P st call a g)) o1)" by auto
  with Cons.IH [of "act P st call a g" o1] Cons.prems show ?case by (fastforce intro: rtranclp_trans)
qed

lemma actions_reachable:
  assumes "list_all (action_ok ok) as" and "realises send call"
  shows "\<exists>o'. reachable P st send drift ok cl (at_rest (gw_db (fold (act P st call) as (fresh_gateway cl)))
    (gw_client (fold (act P st call) as (fresh_gateway cl))) o')"
  using actions_run [OF assms, of P st drift "fresh_gateway cl" "\<lambda>_. None"]
  by (auto simp: reachable_def initial_def at_rest_def fresh_gateway_def)


definition unavailable_call :: "nat caller" where
  "unavailable_call tid p n = (Unavailable ''timeout'', Suc n)"

definition sample_actions :: "action list" where
  "sample_actions = [Submit sample_env sample_event, Poll (utc 5000000) (\<lambda>_. sample_tick)]"

lemma sample_actions_ok: "list_all (action_ok event_ok) sample_actions"
  by (simp add: sample_actions_def sample_event_def event_ok_def utc_def)


text \<open>A reachable state in which one event is queued, for the witnesses.\<close>

lemma sample_reachable:
  "\<exists>s ev. reachable exact_platform default_settings (at_once unavailable_call) (\<lambda>_ _. False) event_ok 0 s
     \<and> get_event ''evt-1'' (sy_db s) = Some ev \<and> ev_status ev = QUEUED"
proof -
  let ?g = "snd (submit exact_platform default_settings sample_env id id unavailable_call sample_event (fresh_gateway 0))"
  have ok: "event_ok sample_event" by (simp add: sample_event_def event_ok_def utc_def)
  obtain o' where "reachable exact_platform default_settings (at_once unavailable_call) (\<lambda>_ _. False) event_ok 0
      (at_rest (gw_db ?g) (gw_client ?g) o')"
    using submit_run [where ok = event_ok and c = sample_event and P = exact_platform and st = default_settings
      and call = unavailable_call and g = "fresh_gateway 0" and origin = "\<lambda>_. None" and e = sample_env,
      OF ok at_once_realises]
    by (auto simp: reachable_def initial_def at_rest_def fresh_gateway_def)
  moreover have "ec_event_id sample_event = ''evt-1''" by (simp add: sample_event_def)
  then have "\<exists>ev. get_event ''evt-1'' (gw_db ?g) = Some ev \<and> ev_status ev = QUEUED"
    using submit_new [of sample_event "fresh_gateway 0" id id unavailable_call sample_env "Unavailable ''timeout''" 1
      exact_platform default_settings "fst (submit exact_platform default_settings sample_env id id unavailable_call
        sample_event (fresh_gateway 0))" ?g]
    by (simp add: unavailable_call_def final_status_def touched_def)
  ultimately show ?thesis by (metis at_rest_sel(1))
qed

theorem queue_matches_events_witness:
  "\<exists>s. reachable exact_platform default_settings (at_once unavailable_call) (\<lambda>_ _. False) event_ok 0 s
     \<and> get_delivery ''evt-1'' (sy_db s) \<noteq> None"
proof -
  obtain s ev where s: "reachable exact_platform default_settings (at_once unavailable_call) (\<lambda>_ _. False) event_ok 0 s"
    "get_event ''evt-1'' (sy_db s) = Some ev" "ev_status ev = QUEUED" using sample_reachable by blast
  from queue_matches_events [OF s(1), of "''evt-1''"] s show ?thesis by auto
qed

theorem event_life_witness:
  "\<exists>s ev ev'. reachable exact_platform default_settings (at_once unavailable_call) (\<lambda>_ _. False) event_ok 0 s
     \<and> get_event ''evt-1'' (sy_db s) = Some ev
     \<and> get_event ''evt-1'' (sy_db (s\<lparr>sy_worker := Idle\<rparr>)) = Some ev' \<and> may_become (ev_status ev) (ev_status ev')"
proof -
  obtain s ev where s: "reachable exact_platform default_settings (at_once unavailable_call) (\<lambda>_ _. False) event_ok 0 s"
    "get_event ''evt-1'' (sy_db s) = Some ev" using sample_reachable by blast
  have "(step exact_platform default_settings (at_once unavailable_call) (\<lambda>_ _. False) event_ok)\<^sup>*\<^sup>* s (s\<lparr>sy_worker := Idle\<rparr>)"
    by (intro r_into_rtranclp step.worker_cut_off)
  from event_life [OF s(1) this s(2)] s show ?thesis by blast
qed

end
