(* ===== verification/Applications.thy ===== *)
theory Applications
  imports Observability GatewaySystem
begin

text \<open>
  The two applications as they are put together in \<open>main.py\<close>: the middleware that counts and logs
  requests, the order in which the middlewares are registered, the exception handlers around them, and
  the health checks. The framework that composes the middlewares is a parameter \<open>build\<close>; its documented
  behaviour (the one registered last runs first) is the hypothesis \<open>documented_build\<close>. Its documentation
  also places the handler of \<open>Exception\<close> outside of all middlewares and every other handler inside, next
  to the routes (\<open>answer_unhandled\<close>, \<open>answer_handled\<close>).
\<close>

section \<open>The process\<close>

text \<open>
  The state of a service process: the trace state of the request, the counters \<open>REQUESTS\<close> and
  \<open>LATENCY\<close>, the log with the trace id at each record, the rate limiter with its count of rejections,
  and what the routes work on.
\<close>

record 's process = trace_state +
  pr_requests :: "string \<times> string \<times> string \<Rightarrow> nat"
  pr_latency :: "string \<times> string \<Rightarrow> rat list"
  pr_log :: "(string \<times> log_record) list"
  pr_limiter :: limiter
  pr_rejections :: "string list"
  pr_state :: 's

type_synonym 's app = "'s process \<Rightarrow> (exn + http_resp) \<times> 's process"

text \<open>\<open>wr_route\<close> is the path template of the route that matched, if one did.\<close>

record web_req = http_req +
  wr_method :: string
  wr_route :: "string option"

definition emit :: "string \<Rightarrow> string \<Rightarrow> (string \<times> json) list \<Rightarrow> exn option \<Rightarrow> 's process \<Rightarrow> 's process" where
  "emit level message extra exc w = w\<lparr>pr_log := pr_log w @
     [(current_trace_id w, \<lparr>lr_level = level, lr_message = message, lr_extra = extra, lr_exc = exc\<rparr>)]\<rparr>"

text \<open>The clock readings of a request and the ids it may draw.\<close>

record readings =
  rg_started :: rat
  rg_finished :: rat
  rg_monotonic :: rat
  rg_fresh :: string
  rg_fresh_limited :: string

definition round2 :: "rat \<Rightarrow> rat" where
  "round2 x = of_int (round_half_even (x * 100)) / 100"

definition path_template :: "web_req \<Rightarrow> string" where
  "path_template rq = (case wr_route rq of Some path \<Rightarrow> path | None \<Rightarrow> rq_path rq)"

definition completed :: "web_req \<Rightarrow> int \<Rightarrow> rat \<Rightarrow> (string \<times> json) list" where
  "completed rq code duration = [(''method'', JStr (wr_method rq)), (''path'', JStr (path_template rq)),
     (''statusCode'', JNum (of_int code)), (''durationMs'', JNum (round2 (duration * 1000)))]"

definition metrics_and_access_log :: "readings \<Rightarrow> web_req \<Rightarrow> 's app \<Rightarrow> 's app" where
  "metrics_and_access_log rd rq call_next w =
     (case call_next w of
        (Inl e, w1) \<Rightarrow> (Inl e, emit ''ERROR'' ''Unhandled request error'' [] (Some e) w1)
      | (Inr r, w1) \<Rightarrow>
          (let duration = rg_finished rd - rg_started rd;
               template = path_template rq;
               label = (wr_method rq, template, str_int (status_code r));
               timing = (wr_method rq, template)
           in (Inr r, emit ''INFO'' ''request completed'' (completed rq (status_code r) duration) None
                (w1\<lparr>pr_requests := (pr_requests w1)(label := pr_requests w1 label + 1),
                    pr_latency := (pr_latency w1)(timing := pr_latency w1 timing @ [duration])\<rparr>))))"

text \<open>The account service's own copy of it.\<close>

definition account_metrics_and_access_log :: "readings \<Rightarrow> web_req \<Rightarrow> 's app \<Rightarrow> 's app" where
  "account_metrics_and_access_log rd rq call_next w =
     (case call_next w of
        (Inl e, w1) \<Rightarrow> (Inl e, emit ''ERROR'' ''Unhandled request error'' [] (Some e) w1)
      | (Inr response, w1) \<Rightarrow>
          (let duration = rg_finished rd - rg_started rd;
               template = (case wr_route rq of Some path \<Rightarrow> path | None \<Rightarrow> rq_path rq);
               counted = (wr_method rq, template, str_int (status_code response));
               w2 = w1\<lparr>pr_requests := (pr_requests w1)(counted := pr_requests w1 counted + 1)\<rparr>;
               w3 = w2\<lparr>pr_latency := (pr_latency w2)((wr_method rq, template) :=
                 pr_latency w2 (wr_method rq, template) @ [duration])\<rparr>
           in (Inr response, emit ''INFO'' ''request completed''
                [(''method'', JStr (wr_method rq)), (''path'', JStr template),
                 (''statusCode'', JNum (of_int (status_code response))),
                 (''durationMs'', JNum (round2 (duration * 1000)))] None w3)))"

lemma account_metrics_same: "account_metrics_and_access_log = metrics_and_access_log"
  by (intro ext) (simp add: account_metrics_and_access_log_def metrics_and_access_log_def completed_def
      path_template_def Let_def split: sum.split prod.split)

text \<open>The page of metrics: the library's rendering of the counters under its content type.\<close>

definition metrics_page :: "string \<Rightarrow> string \<Rightarrow> http_resp" where
  "metrics_page media_type text =
     \<lparr>status_code = 200, headers = [(''content-type'', media_type)], body = JStr text\<rparr>"

text \<open>\<open>rate_limit_middleware\<close> on the process: the limiter in \<open>app.state\<close>, the trace id of the context.\<close>

definition limit_requests :: "settings \<Rightarrow> readings \<Rightarrow> web_req \<Rightarrow> 's app \<Rightarrow> 's app" where
  "limit_requests st rd rq call_next w =
     (let (res, g) = rate_limit_middleware (st_rate_limit_enabled st) (current_trace_id w) (rg_fresh_limited rd)
            (rg_monotonic rd) (http_req.truncate rq) call_next
            \<lparr>gt_limiter = pr_limiter w, gt_rejections = pr_rejections w, gt_app = w\<rparr>
      in (res, (gt_app g)\<lparr>pr_limiter := gt_limiter g, pr_rejections := gt_rejections g\<rparr>))"

section \<open>The middlewares, in the order of their registration\<close>

definition gateway_middlewares :: "settings \<Rightarrow> readings \<Rightarrow> web_req \<Rightarrow> ('s app \<Rightarrow> 's app) list" where
  "gateway_middlewares st rd rq = [metrics_and_access_log rd rq, limit_requests st rd rq,
     tracing_middleware (rg_fresh rd) (rq_trace rq)]"

definition account_middlewares :: "readings \<Rightarrow> web_req \<Rightarrow> ('s app \<Rightarrow> 's app) list" where
  "account_middlewares rd rq = [account_tracing_middleware (rg_fresh rd) (rq_trace rq), account_metrics_and_access_log rd rq]"

section \<open>The exception handlers around the routes\<close>

definition answer_handled :: "platform \<Rightarrow> 's app \<Rightarrow> 's app" where
  "answer_handled P router w = (case router w of
     (Inl (OtherException m), w1) \<Rightarrow> (Inl (OtherException m), w1)
   | (Inl SQLAlchemyError, w1) \<Rightarrow> (Inr (database_error (current_trace_id w1)),
       emit ''ERROR'' ''Database operation failed'' [] (Some SQLAlchemyError) w1)
   | (Inl e, w1) \<Rightarrow> (Inr (handle_exception P (current_trace_id w1) e), w1)
   | (Inr r, w1) \<Rightarrow> (Inr r, w1))"

definition answer_unhandled :: "'s app \<Rightarrow> 's app" where
  "answer_unhandled app w = (case app w of
     (Inl e, w1) \<Rightarrow> (Inr (generic_error (current_trace_id w1)),
       emit ''ERROR'' ''Unhandled exception'' [] (Some e) w1)
   | (Inr r, w1) \<Rightarrow> (Inr r, w1))"

definition documented_build :: "(('s app \<Rightarrow> 's app) list \<Rightarrow> 's app \<Rightarrow> 's app) \<Rightarrow> bool" where
  "documented_build build \<longleftrightarrow> (\<forall>app. build [] app = app) \<and> (\<forall>ms m app. build (ms @ [m]) app = m (build ms app))"

definition gateway_app :: "(('s app \<Rightarrow> 's app) list \<Rightarrow> 's app \<Rightarrow> 's app) \<Rightarrow> platform \<Rightarrow> settings \<Rightarrow> readings \<Rightarrow> web_req
    \<Rightarrow> 's app \<Rightarrow> 's app" where
  "gateway_app build P st rd rq router = answer_unhandled (build (gateway_middlewares st rd rq) (answer_handled P router))"

definition account_app :: "(('s app \<Rightarrow> 's app) list \<Rightarrow> 's app \<Rightarrow> 's app) \<Rightarrow> platform \<Rightarrow> readings \<Rightarrow> web_req
    \<Rightarrow> 's app \<Rightarrow> 's app" where
  "account_app build P rd rq router = answer_unhandled (build (account_middlewares rd rq) (answer_handled P router))"

lemma build_gateway:
  "documented_build build \<Longrightarrow> build (gateway_middlewares st rd rq) app
    = tracing_middleware (rg_fresh rd) (rq_trace rq) (limit_requests st rd rq (metrics_and_access_log rd rq app))"
  unfolding documented_build_def gateway_middlewares_def by (metis append.simps)

lemma build_account:
  "documented_build build \<Longrightarrow> build (account_middlewares rd rq) app
    = metrics_and_access_log rd rq (tracing_middleware (rg_fresh rd) (rq_trace rq) app)"
  unfolding documented_build_def account_middlewares_def account_metrics_same account_tracing_same by (metis append.simps)

section \<open>Lemmas on the layers\<close>

text \<open>A request that the limiter lets through to the routes.\<close>

definition admitted :: "settings \<Rightarrow> readings \<Rightarrow> web_req \<Rightarrow> limiter \<Rightarrow> bool" where
  "admitted st rd rq L \<longleftrightarrow> \<not> st_rate_limit_enabled st \<or> is_rate_limit_exempt (rq_path rq)
     \<or> passes (rate_limit_key (http_req.truncate rq)) (rg_monotonic rd) L"

text \<open>The answer to what a route returns or raises.\<close>

definition answer_of :: "platform \<Rightarrow> string \<Rightarrow> exn + http_resp \<Rightarrow> http_resp" where
  "answer_of P tid res = (case res of Inl e \<Rightarrow> handle_exception P tid e | Inr r \<Rightarrow> r)"

definition unexpected :: "exn + http_resp \<Rightarrow> bool" where
  "unexpected res = (case res of Inl (OtherException m) \<Rightarrow> True | _ \<Rightarrow> False)"

lemma enter_trace_process [simp]:
  "ctx_var (enter_trace c w) = c" "pr_limiter (enter_trace c w) = pr_limiter w"
  "pr_rejections (enter_trace c w) = pr_rejections w" "pr_log (enter_trace c w) = pr_log w"
  "pr_requests (enter_trace c w) = pr_requests w" "pr_latency (enter_trace c w) = pr_latency w"
  "pr_state (enter_trace c w) = pr_state w"
  by (simp_all add: enter_trace_def Let_def)

lemma emit_process [simp]:
  "ctx_var (emit level m x exc w) = ctx_var w" "pr_limiter (emit level m x exc w) = pr_limiter w"
  "pr_requests (emit level m x exc w) = pr_requests w" "pr_state (emit level m x exc w) = pr_state w"
  "pr_log (emit level m x exc w) = pr_log w @
     [(ctx_var w, \<lparr>lr_level = level, lr_message = m, lr_extra = x, lr_exc = exc\<rparr>)]"
  by (simp_all add: emit_def current_trace_id_def)

lemma truncate_path [simp]: "rq_path (http_req.truncate rq) = rq_path rq" "rq_trace (http_req.truncate rq) = rq_trace rq"
  by (simp_all add: http_req.truncate_def)

text \<open>Log records added under one trace id.\<close>

definition logs_under :: "string \<Rightarrow> 's process \<Rightarrow> 's process \<Rightarrow> bool" where
  "logs_under c w w' \<longleftrightarrow> prefix (pr_log w) (pr_log w') \<and> (\<forall>x \<in> set (drop (length (pr_log w)) (pr_log w')). fst x = c)"

lemma logs_under_refl [simp]: "pr_log w' = pr_log w \<Longrightarrow> logs_under c w w'"
  by (simp add: logs_under_def)

lemma logs_under_add: "pr_log w' = pr_log w @ xs \<Longrightarrow> logs_under c w w' \<longleftrightarrow> (\<forall>x \<in> set xs. fst x = c)"
  by (simp add: logs_under_def)

lemma logs_underE:
  assumes "logs_under c w w'"
  obtains xs where "pr_log w' = pr_log w @ xs" "\<forall>x \<in> set xs. fst x = c"
  using assms by (auto simp: logs_under_def prefix_def)

lemma answer_handled_run:
  assumes "router w = (res, w1)" and "\<not> unexpected res"
  shows "\<exists>w2. answer_handled P router w = (Inr (answer_of P (ctx_var w1) res), w2) \<and> ctx_var w2 = ctx_var w1
    \<and> pr_requests w2 = pr_requests w1 \<and> pr_state w2 = pr_state w1 \<and> logs_under (ctx_var w1) w1 w2"
proof (cases res)
  case (Inl e)
  with assms show ?thesis
    by (cases e) (auto simp: answer_handled_def answer_of_def unexpected_def current_trace_id_def logs_under_add)
next
  case (Inr r)
  with assms show ?thesis by (simp add: answer_handled_def answer_of_def)
qed

lemma answer_handled_unexpected:
  "router w = (Inl (OtherException m), w1) \<Longrightarrow> answer_handled P router w = (Inl (OtherException m), w1)"
  by (simp add: answer_handled_def)

lemma metrics_run:
  assumes "app w = (Inr r, w1)"
  shows "\<exists>w2. metrics_and_access_log rd rq app w = (Inr r, w2) \<and> ctx_var w2 = ctx_var w1 \<and> pr_state w2 = pr_state w1
    \<and> pr_requests w2 = (pr_requests w1)((wr_method rq, path_template rq, str_int (status_code r))
        := Suc (pr_requests w1 (wr_method rq, path_template rq, str_int (status_code r))))
    \<and> pr_log w2 = pr_log w1 @ [(ctx_var w1, \<lparr>lr_level = ''INFO'', lr_message = ''request completed'',
        lr_extra = completed rq (status_code r) (rg_finished rd - rg_started rd), lr_exc = None\<rparr>)]"
  using assms by (simp add: metrics_and_access_log_def Let_def)

lemma header_limit_headers:
  "header ''X-Trace-ID'' (foldl (\<lambda>r (n, v). add_header n v r) r (limit_headers d)) = header ''X-Trace-ID'' r"
  by (simp add: limit_headers_def)

lemma limit_requests_admitted:
  assumes "admitted st rd rq (pr_limiter w)" and "app w = (res, w1)"
  shows "\<exists>w2 res2. limit_requests st rd rq app w = (res2, w2) \<and> ctx_var w2 = ctx_var w1 \<and> pr_requests w2 = pr_requests w1
    \<and> pr_log w2 = pr_log w1 \<and> pr_state w2 = pr_state w1
    \<and> (case res of Inl e \<Rightarrow> res2 = Inl e | Inr r \<Rightarrow> \<exists>r2. res2 = Inr r2 \<and> status_code r2 = status_code r
         \<and> body r2 = body r \<and> (header ''X-Trace-ID'' r2 = header ''X-Trace-ID'' r))"
proof (cases "\<not> st_rate_limit_enabled st \<or> is_rate_limit_exempt (rq_path rq)")
  case True
  with assms(2) show ?thesis
    by (cases res) (auto simp: limit_requests_def rate_limit_middleware_def)
next
  case False
  let ?k = "rate_limit_key (http_req.truncate rq)"
  from False assms(1) have "passes ?k (rg_monotonic rd) (pr_limiter w)" by (simp add: admitted_def)
  then obtain d L where d: "check ?k (rg_monotonic rd) (pr_limiter w) = (Inr d, L)" "rd_allowed d"
    by (cases "check ?k (rg_monotonic rd) (pr_limiter w)") (auto simp: passes_def split: sum.splits)
  with False assms(2) show ?thesis
    by (cases res) (auto simp: limit_requests_def rate_limit_middleware_def header_limit_headers)
qed

lemma limit_requests_limited:
  assumes "\<not> admitted st rd rq (pr_limiter w)" and "1 \<le> rl_limit (pr_limiter w)"
  shows "\<exists>d L. limit_requests st rd rq app w = (Inr (too_many_requests d
      (if ctx_var w = ''-'' then normalize_trace_id (rg_fresh_limited rd) (rq_trace rq) else ctx_var w)),
      w\<lparr>pr_limiter := L, pr_rejections := pr_rejections w @ [rq_path rq]\<rparr>)"
proof -
  let ?k = "rate_limit_key (http_req.truncate rq)" and ?t = "rg_monotonic rd"
  from assms(1) have on: "st_rate_limit_enabled st" "\<not> is_rate_limit_exempt (rq_path rq)"
    and full: "rl_limit (pr_limiter w) \<le> int (length (live ?k ?t (pr_limiter w)))"
    by (auto simp: admitted_def passes_iff)
  with assms(2) obtain o' rest where "live ?k ?t (pr_limiter w) = o' # rest"
    by (cases "live ?k ?t (pr_limiter w)") auto
  from check_full [OF full this] obtain d L where "check ?k ?t (pr_limiter w) = (Inr d, L)" "\<not> rd_allowed d"
    by (cases "check ?k ?t (pr_limiter w)") auto
  with on show ?thesis
    by (auto simp: limit_requests_def rate_limit_middleware_def current_trace_id_def Let_def)
qed

text \<open>A process, a request and a composition of middlewares for the witnesses.\<close>

definition sample_process :: "'s \<Rightarrow> 's process" where
  "sample_process x = \<lparr>ctx_var = ''-'', span_recording = True, span_trace = None, span_attrs = [],
     pr_requests = (\<lambda>_. 0), pr_latency = (\<lambda>_. []), pr_log = [],
     pr_limiter = sample_limiter\<lparr>rl_requests := [''busy'' \<mapsto> [98, 99]]\<rparr>, pr_rejections = [], pr_state = x\<rparr>"

definition sample_web_request :: "string \<Rightarrow> web_req" where
  "sample_web_request host = \<lparr>rq_path = ''/events/evt-1'', rq_client = Some host, rq_trace = Some ''trace-9'',
     wr_method = ''GET'', wr_route = Some ''/events/{event_id}''\<rparr>"

definition sample_readings :: readings where
  "sample_readings = \<lparr>rg_started = 1, rg_finished = 3 / 2, rg_monotonic = 100, rg_fresh = ''f1'', rg_fresh_limited = ''f2''\<rparr>"

definition last_outermost :: "('s app \<Rightarrow> 's app) list \<Rightarrow> 's app \<Rightarrow> 's app" where
  "last_outermost ms app = fold (\<lambda>m a. m a) ms app"

lemma last_outermost_documented: "documented_build last_outermost"
  by (simp add: documented_build_def last_outermost_def)

lemma sample_trace: "normalize_trace_id (rg_fresh sample_readings) (rq_trace (sample_web_request host)) = ''trace-9''"
  by code_simp

lemma sample_limits:
  "admitted default_settings sample_readings (sample_web_request ''free'') (pr_limiter (sample_process x))"
  "\<not> admitted default_settings sample_readings (sample_web_request ''busy'') (pr_limiter (sample_process x))"
  "1 \<le> rl_limit (pr_limiter (sample_process x))"
  by (simp_all add: admitted_def passes_iff live_def deque_def sample_process_def sample_limiter_def sample_readings_def
      sample_web_request_def rate_limit_key_def http_req.truncate_def is_rate_limit_exempt_def)

section \<open>Properties of the applications\<close>

lemma gateway_app_admitted:
  assumes "documented_build build" and "admitted st rd rq (pr_limiter w)"
    and c: "c = normalize_trace_id (rg_fresh rd) (rq_trace rq)"
    and m: "metrics_and_access_log rd rq (answer_handled P router) (enter_trace c w) = (Inr r, w2)"
  shows "\<exists>r3 w3. gateway_app build P st rd rq router w = (Inr r3, w3) \<and> header ''X-Trace-ID'' r3 = Some c
    \<and> status_code r3 = status_code r \<and> body r3 = body r \<and> ctx_var w3 = ctx_var w
    \<and> pr_requests w3 = pr_requests w2 \<and> pr_log w3 = pr_log w2 \<and> pr_state w3 = pr_state w2"
proof -
  let ?app = "metrics_and_access_log rd rq (answer_handled P router)"
  from limit_requests_admitted [where app = ?app and w = "enter_trace c w" and st = st and rd = rd and rq = rq, OF _ m] assms(2)
  obtain r3 w3 where l: "limit_requests st rd rq ?app (enter_trace c w) = (Inr r3, w3)"
    "status_code r3 = status_code r" "body r3 = body r" "pr_requests w3 = pr_requests w2" "pr_log w3 = pr_log w2"
    "pr_state w3 = pr_state w2" by auto
  from tracing_middleware_run [where call_next = "limit_requests st rd rq ?app" and ts = w, OF l(1) [unfolded c]] l c show ?thesis
    by (simp add: gateway_app_def answer_unhandled_def build_gateway [OF assms(1)])
qed

text \<open>A request whose route returns, or raises an exception that has a handler.\<close>

lemma gateway_app_handled:
  assumes "documented_build build" and "admitted st rd rq (pr_limiter w)"
    and "c = normalize_trace_id (rg_fresh rd) (rq_trace rq)"
    and "router (enter_trace c w) = (res, w1)" and "ctx_var w1 = c" and "\<not> unexpected res"
  shows "\<exists>r w'. gateway_app build P st rd rq router w = (Inr r, w')
    \<and> status_code r = status_code (answer_of P c res) \<and> body r = body (answer_of P c res)
    \<and> header ''X-Trace-ID'' r = Some c
    \<and> pr_requests w' = (pr_requests w1)((wr_method rq, path_template rq, str_int (status_code r))
        := Suc (pr_requests w1 (wr_method rq, path_template rq, str_int (status_code r))))
    \<and> (\<exists>lines line. pr_log w' = pr_log w1 @ lines @ [(c, line)] \<and> (\<forall>x \<in> set lines. fst x = c)
        \<and> lr_message line = ''request completed''
        \<and> lr_extra line = completed rq (status_code r) (rg_finished rd - rg_started rd))
    \<and> pr_state w' = pr_state w1 \<and> ctx_var w' = ctx_var w"
proof -
  obtain w2 where h: "answer_handled P router (enter_trace c w) = (Inr (answer_of P c res), w2)" "ctx_var w2 = c"
    "pr_requests w2 = pr_requests w1" "pr_state w2 = pr_state w1" "logs_under c w1 w2"
    using answer_handled_run [where router = router and w = "enter_trace c w" and P = P, OF assms(4,6)] assms(5) by auto
  obtain lines where lines: "pr_log w2 = pr_log w1 @ lines" "\<forall>x \<in> set lines. fst x = c"
    using h(5) by (rule logs_underE)
  obtain w3 where m: "metrics_and_access_log rd rq (answer_handled P router) (enter_trace c w)
      = (Inr (answer_of P c res), w3)" "pr_state w3 = pr_state w2"
    "pr_requests w3 = (pr_requests w2)((wr_method rq, path_template rq, str_int (status_code (answer_of P c res)))
        := Suc (pr_requests w2 (wr_method rq, path_template rq, str_int (status_code (answer_of P c res)))))"
    "pr_log w3 = pr_log w2 @ [(c, \<lparr>lr_level = ''INFO'', lr_message = ''request completed'',
        lr_extra = completed rq (status_code (answer_of P c res)) (rg_finished rd - rg_started rd), lr_exc = None\<rparr>)]"
    using metrics_run [where app = "answer_handled P router" and w = "enter_trace c w" and rd = rd and rq = rq, OF h(1)] h(2) by auto
  from gateway_app_admitted [OF assms(1-3) m(1)] obtain r w' where
    g: "gateway_app build P st rd rq router w = (Inr r, w')" "header ''X-Trace-ID'' r = Some c"
    "status_code r = status_code (answer_of P c res)" "body r = body (answer_of P c res)" "ctx_var w' = ctx_var w"
    "pr_requests w' = pr_requests w3" "pr_log w' = pr_log w3" "pr_state w' = pr_state w3" by blast
  from g m h lines show ?thesis by (intro exI [of _ r] exI [of _ w']) (simp del: fun_upd_apply)
qed

text \<open>
  C26. A request the limiter admits is answered, traced and accounted for: when the routes return, or
  raise an exception that has a handler, the client gets the route's answer (or the handler's, with the
  request's trace id in it) with that id in \<open>X-Trace-ID\<close>, exactly one request is counted, under its method,
  route and status, and what the layers around the routes log is the access log entry, after at most the
  record of a database error, all with the same trace id.
\<close>

theorem gateway_answers_traced:
  assumes "documented_build build" and "admitted st rd rq (pr_limiter w)"
    and "c = normalize_trace_id (rg_fresh rd) (rq_trace rq)"
    and "router (enter_trace c w) = (res, w1)" and "ctx_var w1 = c" and "\<not> unexpected res"
  shows "\<exists>r w'. gateway_app build P st rd rq router w = (Inr r, w')
    \<and> status_code r = status_code (answer_of P c res) \<and> body r = body (answer_of P c res)
    \<and> header ''X-Trace-ID'' r = Some c
    \<and> pr_requests w' = (pr_requests w1)((wr_method rq, path_template rq, str_int (status_code r))
        := Suc (pr_requests w1 (wr_method rq, path_template rq, str_int (status_code r))))
    \<and> (\<exists>lines line. pr_log w' = pr_log w1 @ lines @ [(c, line)] \<and> (\<forall>x \<in> set lines. fst x = c)
        \<and> lr_message line = ''request completed''
        \<and> lr_extra line = completed rq (status_code r) (rg_finished rd - rg_started rd))
    \<and> pr_state w' = pr_state w1 \<and> ctx_var w' = ctx_var w"
  using gateway_app_handled [where router = router and P = P, OF assms] by blast

theorem gateway_answers_traced_witness:
  "\<exists>r w'. gateway_app last_outermost exact_platform default_settings sample_readings (sample_web_request ''free'')
      (\<lambda>w. (Inl (HTTPException 404 (JStr ''no'')), w)) (sample_process (7 :: nat)) = (Inr r, w')
    \<and> status_code r = 404 \<and> header ''X-Trace-ID'' r = Some ''trace-9''"
  using gateway_answers_traced [where router = "\<lambda>w. (Inl (HTTPException 404 (JStr ''no'')), w)" and P = exact_platform,
      OF last_outermost_documented sample_limits(1) [where x = "7 :: nat"] sample_trace [symmetric] refl]
  by (auto simp: unexpected_def answer_of_def http_error_def json_response_def)

text \<open>
  C27. A client over its limit never reaches the routes: it is answered 429 with its trace id in
  \<open>X-Trace-ID\<close>, nothing the routes work on changes, and the rejection is counted under the path asked
  for; but the answer is neither counted among the requests nor in the access log, because the
  middleware that does both runs inside the limiter.
\<close>

theorem rejected_requests_uncounted:
  assumes "documented_build build" and "\<not> admitted st rd rq (pr_limiter w)" and "1 \<le> rl_limit (pr_limiter w)"
  shows "\<exists>r w'. gateway_app build P st rd rq router w = (Inr r, w') \<and> status_code r = 429
    \<and> header ''X-Trace-ID'' r = Some (normalize_trace_id (rg_fresh rd) (rq_trace rq))
    \<and> pr_state w' = pr_state w \<and> pr_rejections w' = pr_rejections w @ [rq_path rq]
    \<and> pr_requests w' = pr_requests w \<and> pr_log w' = pr_log w"
proof -
  let ?c = "normalize_trace_id (rg_fresh rd) (rq_trace rq)"
  let ?app = "metrics_and_access_log rd rq (answer_handled P router)"
  obtain d L tid where l: "limit_requests st rd rq ?app (enter_trace ?c w) = (Inr (too_many_requests d tid),
      (enter_trace ?c w)\<lparr>pr_limiter := L, pr_rejections := pr_rejections w @ [rq_path rq]\<rparr>)"
    using limit_requests_limited [of st rd rq "enter_trace ?c w" ?app] assms(2,3) by auto
  from tracing_middleware_run [where call_next = "limit_requests st rd rq ?app" and ts = w, OF l] show ?thesis
    by (simp add: gateway_app_def answer_unhandled_def build_gateway [OF assms(1)])
qed

theorem rejected_requests_uncounted_witness:
  "\<exists>r w'. gateway_app last_outermost exact_platform default_settings sample_readings (sample_web_request ''busy'')
      (\<lambda>w. (Inr (json_response 200 JNull), w)) (sample_process (7 :: nat)) = (Inr r, w') \<and> status_code r = 429 \<and> pr_log w' = []"
proof -
  have "pr_log (sample_process (7 :: nat)) = []" by (simp add: sample_process_def)
  with rejected_requests_uncounted [where router = "\<lambda>w. (Inr (json_response 200 JNull), w)" and P = exact_platform,
      OF last_outermost_documented sample_limits(2,3) [where x = "7 :: nat"]] show ?thesis by auto
qed

text \<open>
  C28. An unexpected exception leaves no trace: when a route raises an exception without a handler of its
  own, the client gets the 500 of the error contract, but it is made outside of the middlewares: it has
  no \<open>X-Trace-ID\<close>, the \<open>traceId\<close> in it is the one outside of every request, and the request is counted
  nowhere; only the first of the two log lines has the trace id of the request.
\<close>

theorem unexpected_error_untraced:
  assumes "documented_build build" and "admitted st rd rq (pr_limiter w)"
    and "c = normalize_trace_id (rg_fresh rd) (rq_trace rq)"
    and "router (enter_trace c w) = (Inl (OtherException m), w1)" and "ctx_var w1 = c"
  shows "\<exists>w'. gateway_app build P st rd rq router w = (Inr (generic_error (ctx_var w)), w')
    \<and> header ''X-Trace-ID'' (generic_error (ctx_var w)) = None \<and> status_code (generic_error (ctx_var w)) = 500
    \<and> pr_requests w' = pr_requests w1 \<and> map fst (pr_log w') = map fst (pr_log w1) @ [c, ctx_var w]"
proof -
  let ?app = "metrics_and_access_log rd rq (answer_handled P router)"
  let ?e = "OtherException m"
  have m: "?app (enter_trace c w) = (Inl ?e, emit ''ERROR'' ''Unhandled request error'' [] (Some ?e) w1)"
    using answer_handled_unexpected [where router = router and w = "enter_trace c w" and P = P, OF assms(4)] by (simp add: metrics_and_access_log_def)
  from limit_requests_admitted [where app = ?app and w = "enter_trace c w" and st = st and rd = rd and rq = rq, OF _ m] assms(2)
  obtain w3 where
    l: "limit_requests st rd rq ?app (enter_trace c w) = (Inl ?e, w3)"
    "pr_requests w3 = pr_requests w1" "map fst (pr_log w3) = map fst (pr_log w1) @ [c]"
    using assms(5) by auto
  from tracing_middleware_run [where call_next = "limit_requests st rd rq ?app" and ts = w, OF l(1) [unfolded assms(3)]] l show ?thesis
    by (simp add: gateway_app_def answer_unhandled_def build_gateway [OF assms(1)] current_trace_id_def)
       (simp add: generic_error_def json_response_def header_def)
qed

theorem unexpected_error_untraced_witness:
  "\<exists>w'. gateway_app last_outermost exact_platform default_settings sample_readings (sample_web_request ''free'')
      (\<lambda>w. (Inl (OtherException ''x''), w)) (sample_process (7 :: nat)) = (Inr (generic_error ''-''), w')
    \<and> map fst (pr_log w') = [''trace-9'', ''-'']"
proof -
  have "ctx_var (sample_process (7 :: nat)) = ''-''" "pr_log (sample_process (7 :: nat)) = []" by (simp_all add: sample_process_def)
  with unexpected_error_untraced [where router = "\<lambda>w. (Inl (OtherException ''x''), w)" and P = exact_platform,
      OF last_outermost_documented sample_limits(1) [where x = "7 :: nat"] sample_trace [symmetric] refl] show ?thesis by auto
qed

text \<open>
  The account service: the answer carries the trace id, but the tracing middleware is registered first and so
  runs inside the one that logs, which writes its entry after the id has been reset.
\<close>

lemma account_app_handled:
  assumes "documented_build build" and "c = normalize_trace_id (rg_fresh rd) (rq_trace rq)"
    and "router (enter_trace c w) = (res, w1)" and "ctx_var w1 = c" and "\<not> unexpected res"
  shows "\<exists>r w' lines line. account_app build P rd rq router w = (Inr r, w')
    \<and> status_code r = status_code (answer_of P c res) \<and> body r = body (answer_of P c res)
    \<and> header ''X-Trace-ID'' r = Some c \<and> pr_state w' = pr_state w1
    \<and> pr_log w' = pr_log w1 @ lines @ [(ctx_var w, line)] \<and> (\<forall>x \<in> set lines. fst x = c)
    \<and> lr_message line = ''request completed''"
proof -
  obtain w2 where h: "answer_handled P router (enter_trace c w) = (Inr (answer_of P c res), w2)"
    "pr_state w2 = pr_state w1" "logs_under c w1 w2"
    using answer_handled_run [where router = router and w = "enter_trace c w" and P = P, OF assms(3,5)] assms(4) by auto
  obtain lines where lines: "pr_log w2 = pr_log w1 @ lines" "\<forall>x \<in> set lines. fst x = c"
    using h(3) by (rule logs_underE)
  note t = tracing_middleware_run [where call_next = "answer_handled P router" and ts = w, OF h(1) [unfolded assms(2)]]
  let ?tm = "tracing_middleware (rg_fresh rd) (rq_trace rq) (answer_handled P router)"
  from t obtain r w3 where tm: "?tm w = (Inr r, w3)" "header ''X-Trace-ID'' r = Some c" "ctx_var w3 = ctx_var w"
    "status_code r = status_code (answer_of P c res)" "body r = body (answer_of P c res)" "pr_state w3 = pr_state w1"
    "pr_log w3 = pr_log w1 @ lines"
    using assms(2) h(2) lines(1) by simp
  from metrics_run [where app = ?tm and w = w and rd = rd and rq = rq, OF tm(1)] tm lines(2) show ?thesis
    by (auto simp: account_app_def answer_unhandled_def build_account [OF assms(1)])
qed

text \<open>What a route function returns or raises, as the framework passes it on.\<close>

definition reply_response :: "('a \<Rightarrow> json) \<Rightarrow> 'a reply \<Rightarrow> http_resp" where
  "reply_response render rep = \<lparr>status_code = rp_status rep,
     headers = (''content-type'', ''application/json'') # rp_headers rep, body = render (rp_body rep)\<rparr>"

definition ok_or_raise :: "('a \<Rightarrow> http_resp) \<Rightarrow> exn + 'a \<Rightarrow> exn + http_resp" where
  "ok_or_raise f res = (case res of Inl e \<Rightarrow> Inl e | Inr v \<Rightarrow> Inr (f v))"

section \<open>Health\<close>

text \<open>
  The gateway's check: whether \<open>SELECT 1\<close> works, the count of the queue (\<open>None\<close> when it raises), and
  the status the account service's check answers with (\<open>None\<close> when it cannot be reached).
\<close>

definition health :: "app_settings \<Rightarrow> settings \<Rightarrow> bool \<Rightarrow> nat option \<Rightarrow> int option \<Rightarrow> http_resp" where
  "health cfg st db_works queue_count account_service =
     (let db_status = (if db_works then ''UP'' else ''DOWN'');
          queue_depth = (if db_status = ''UP'' then (case queue_count of Some n \<Rightarrow> n | None \<Rightarrow> 0) else 0);
          downstream = (case account_service of Some code \<Rightarrow> if code = 200 then ''UP'' else ''DOWN'' | None \<Rightarrow> ''DOWN'');
          status = (if db_status = ''UP'' then ''UP'' else ''DOWN'');
          content = JObj [(''service'', JStr (as_service_name cfg)), (''status'', JStr status),
            (''database'', JStr db_status), (''dependencies'', JObj [(''accountService'', JStr downstream)]),
            (''asyncFallback'', JObj [(''enabled'', JBool (st_fallback_enabled st)),
              (''queuedEvents'', JNum (of_nat queue_depth))])]
      in json_response (if status = ''UP'' then 200 else 503) content)"

definition account_health :: "app_settings \<Rightarrow> bool \<Rightarrow> http_resp" where
  "account_health cfg db_works =
     (if db_works then json_response 200 (JObj [(''service'', JStr (as_service_name cfg)), (''status'', JStr ''UP''),
        (''database'', JStr ''UP'')])
      else json_response 503 (JObj [(''service'', JStr (as_service_name cfg)), (''status'', JStr ''DOWN''),
        (''database'', JStr ''DOWN'')]))"

text \<open>The primary keys of the two tables, kept by every write.\<close>

definition keys_ok :: "gw_db \<Rightarrow> bool" where
  "keys_ok db \<longleftrightarrow> uniq ev_id (gd_events db) \<and> uniq pd_event_id (gd_deliveries db)"

lemma gw_exec_keys: "keys_ok db \<Longrightarrow> gw_exec P x db = Inr db' \<Longrightarrow> keys_ok db'"
  by (cases x)
     (auto simp: keys_ok_def upd_events_def upd_deliveries_def uniq_tdel set_status_def set_requeued_def
        set_rescheduled_def intro: uniq_tins uniq_tupd split: option.splits)

lemma gw_flush_keys: "keys_ok db \<Longrightarrow> gw_flush P ws db = Inr db' \<Longrightarrow> keys_ok db'"
  by (induction ws arbitrary: db) (auto split: sum.splits intro: gw_exec_keys)

lemma gw_commit_keys [intro]: "keys_ok db \<Longrightarrow> gw_commit P ws db = (err, db') \<Longrightarrow> keys_ok db'"
  by (auto simp: gw_commit_def split: sum.splits intro: gw_flush_keys)

lemma gw_audit_keys [intro!]: "keys_ok db \<Longrightarrow> keys_ok (gw_audit P e ac out ev acc det db)"
  unfolding gw_audit_def by (metis gw_commit_keys prod.collapse)

lemma submit_start_keys: "keys_ok (w1 db) \<Longrightarrow> get_event (ec_event_id c) db = None \<or> keys_ok db
  \<Longrightarrow> submit_start P e w1 c db = (out, db') \<Longrightarrow> keys_ok db'"
  by (auto simp: submit_start_def event_conflict_def event_replay_def split: option.splits if_splits prod.splits)

lemma after_call_keys: "keys_ok db \<Longrightarrow> after_call P st e c res db = (out, db') \<Longrightarrow> keys_ok db'"
  by (auto simp: after_call_def submit_rejected_def submit_applied_def submit_queued_def submit_unavailable_def
      split: call_result.splits if_splits prod.splits option.splits sum.splits)

lemma commit_then_keys: "keys_ok db \<Longrightarrow> commit_then P ws v db = (out, db') \<Longrightarrow> keys_ok db'"
  by (auto simp: commit_then_def split: prod.splits option.splits)

lemma after_delivery_keys: "keys_ok db \<Longrightarrow> after_delivery P st e j d ev res db = (out, db') \<Longrightarrow> keys_ok db'"
  by (auto simp: after_delivery_def split: call_result.splits if_splits intro: commit_then_keys)

lemma step_keys:
  assumes "step P st send drift ok s s'" and "sys_inv P ok s" and keys: "keys_ok (sy_db s)"
  shows "keys_ok (sy_db s')"
  using assms(1)
proof (cases rule: step.cases)
  case (known c ev e out db')
  with submit_start_keys [of id "sy_db s" c P e "Some out" db'] keys show ?thesis by simp
next
  case (insert xs e c db ys db')
  from submit_start_inserts [OF insert(3)]
  have "get_event (ec_event_id c) db = None" by blast
  with submit_start_keys [of "\<lambda>_. sy_db s" db c P e None db'] insert keys show ?thesis by simp
next
  case (lost_race xs e c db ys out db')
  from assms(2) lost_race(2) have "get_event (ec_event_id c) db = None"
    by (auto simp: sys_inv_def flights_inv_def)
  with submit_start_keys [of "\<lambda>_. sy_db s" db c P e "Some out" db'] lost_race keys show ?thesis by simp
next
  case (finish xs e c res ys out db')
  with after_call_keys keys show ?thesis by simp
next
  case (orphan k d out db')
  with commit_then_keys keys show ?thesis by simp
next
  case (worker_done d ev res e j out db')
  with after_delivery_keys keys show ?thesis by simp
qed (use keys in \<open>auto dest: gw_commit_keys\<close>)

lemma reachable_keys:
  assumes "reachable P st send drift ok cl s"
  shows "keys_ok (sy_db s)"
proof -
  from assms have "keys_ok (sy_db s) \<and> sys_inv P ok s"
    unfolding reachable_def
  proof (induction rule: rtranclp_induct)
    case base
    show ?case by (simp add: sys_inv_initial) (simp add: keys_ok_def initial_def empty_gw_db_def)
  next
    case (step s1 s2)
    then show ?case using step_keys [OF step(2)] sys_inv_step [OF step(2)] by blast
  qed
  then show ?thesis by simp
qed

text \<open>The rows of a keyed table are counted by their keys.\<close>

lemma length_keys: "uniq key rows \<Longrightarrow> length rows = card {k. tget key k rows \<noteq> None}"
proof -
  assume u: "uniq key rows"
  have "{k. tget key k rows \<noteq> None} = set (map key rows)" by (auto simp: tget_None)
  with u show ?thesis by (metis distinct_card length_map uniq_def)
qed

text \<open>
  C30. The gateway's health check is about the gateway: it answers 200 exactly when the database works,
  whether or not the account service does, and the queue depth it reports, in any reachable state, is the
  number of events whose status is \<open>QUEUED\<close>.
\<close>

theorem health_reports_queue:
  assumes "reachable P st send drift ok cl s"
  shows "health cfg st True (Some (delivery_count (sy_db s))) account_service = json_response 200
      (JObj [(''service'', JStr (as_service_name cfg)), (''status'', JStr ''UP''), (''database'', JStr ''UP''),
        (''dependencies'', JObj [(''accountService'', JStr (if account_service = Some 200 then ''UP'' else ''DOWN''))]),
        (''asyncFallback'', JObj [(''enabled'', JBool (st_fallback_enabled st)), (''queuedEvents'',
          JNum (of_nat (card {k. map_option ev_status (get_event k (sy_db s)) = Some QUEUED})))])])
    \<and> status_code (health cfg st False queue_count account_service) = 503"
proof -
  have "uniq pd_event_id (gd_deliveries (sy_db s))" using reachable_keys [OF assms] by (simp add: keys_ok_def)
  then have "delivery_count (sy_db s) = card {k. get_delivery k (sy_db s) \<noteq> None}"
    by (simp add: delivery_count_def get_delivery_def length_keys)
  moreover have "queue_inv (sy_db s) (sy_origin s)" using reachable_inv [OF assms] by (simp add: sys_inv_def)
  then have "{k. get_delivery k (sy_db s) \<noteq> None} = {k. map_option ev_status (get_event k (sy_db s)) = Some QUEUED}"
    unfolding queue_inv_def by blast
  ultimately show ?thesis
    by (simp add: health_def json_response_def Let_def split: option.splits)
qed

theorem health_reports_queue_witness:
  "\<exists>s. reachable exact_platform default_settings (at_once unavailable_call) (\<lambda>_ _. False) event_ok 0 s
     \<and> status_code (health gateway_app_settings default_settings True (Some (delivery_count (sy_db s))) None) = 200"
proof -
  obtain s ev where s: "reachable exact_platform default_settings (at_once unavailable_call) (\<lambda>_ _. False) event_ok 0 s"
    using sample_reachable by blast
  from health_reports_queue [OF s, of gateway_app_settings None] s show ?thesis by (auto simp: json_response_def)
qed

end
