(* ===== verification/HandlerLog.thy ===== *)
theory HandlerLog
  imports AsyncFallback Observability
begin

text \<open>
  The log records the handlers and the worker write (the \<open>logger\<close> calls of \<open>services/event_service.py\<close>,
  \<open>services/async_fallback.py\<close> and \<open>services/account_service.py\<close>), each with the trace id of the context
  it is written in, and what they tell: the worker's log, its counters and the trace ids of the submissions.
  As with the counters, the records of an operation are a function of the branch it takes; an operation
  that raises has written what comes before the exception.
\<close>

section \<open>Records\<close>

definition log_about :: "string \<Rightarrow> string \<Rightarrow> string \<Rightarrow> string \<Rightarrow> (string \<times> json) list \<Rightarrow> log_record" where
  "log_about level message event_id account_id extra = \<lparr>lr_level = level, lr_message = message,
     lr_extra = [(''eventId'', JStr event_id), (''accountId'', JStr account_id)] @ extra, lr_exc = None\<rparr>"

section \<open>Submitting an event\<close>

definition submit_start_log :: "event_create \<Rightarrow> gw_db \<Rightarrow> log_record list" where
  "submit_start_log c db =
     (let about = (\<lambda>level message. log_about level message (ec_event_id c) (ec_account_id c) []) in
      about ''INFO'' ''event received'' #
      (case get_event (ec_event_id c) db of
         Some existing \<Rightarrow>
           [if \<not> same_event existing c then about ''WARNING'' ''conflicting event rejected''
            else about ''INFO'' ''event replayed'']
       | None \<Rightarrow> []))"

definition after_call_log :: "platform \<Rightarrow> settings \<Rightarrow> env \<Rightarrow> event_create \<Rightarrow> call_result \<Rightarrow> gw_db \<Rightarrow> log_record list" where
  "after_call_log P st e c res db =
     (let about = (\<lambda>level message. log_about level message (ec_event_id c) (ec_account_id c));
          saved = (\<lambda>s. fst (gw_commit P [UpdEvent (ec_event_id c) s (now e)] db) = None) in
      case res of
        Got r \<Rightarrow>
          if 400 \<le> rs_status r then
            (case downstream_detail r of
               Inr _ \<Rightarrow> if saved FAILED
                 then [about ''ERROR'' ''downstream rejected event'' [(''statusCode'', JNum (of_int (rs_status r)))]] else []
             | Inl _ \<Rightarrow> [])
          else if saved APPLIED then [about ''INFO'' ''event applied successfully'' []] else []
      | Unavailable _ \<Rightarrow>
          if st_fallback_enabled st then
            (case fst (submit_queued P e c db) of
               Inr _ \<Rightarrow> [about ''WARNING'' ''account service unavailable; event queued'' []] | Inl _ \<Rightarrow> [])
          else if saved FAILED then [about ''ERROR'' ''account service unavailable'' []] else []
      | Crashed _ \<Rightarrow> [])"

definition submit_log :: "platform \<Rightarrow> settings \<Rightarrow> env \<Rightarrow> others \<Rightarrow> others \<Rightarrow> 'c caller \<Rightarrow> event_create \<Rightarrow> 'c gateway
    \<Rightarrow> (string \<times> log_record) list" where
  "submit_log P st e w1 w2 call c g = map (Pair (trace e)) (submit_start_log c (gw_db g)
     @ (case submit_start P e w1 c (gw_db g) of
          (Some _, _) \<Rightarrow> []
        | (None, db) \<Rightarrow> after_call_log P st e c (fst (call (trace e) (payload_of c) (gw_client g))) (w2 db)))"

section \<open>The worker\<close>

definition delivery_log :: "delivery \<Rightarrow> event_row \<Rightarrow> call_result \<Rightarrow> exn + bool \<Rightarrow> log_record list" where
  "delivery_log d ev res out =
     (let about = (\<lambda>level message. log_about level message (ev_id ev) (ev_account ev)) in
      case out of Inl _ \<Rightarrow> []
      | Inr _ \<Rightarrow> (case res of
          Unavailable _ \<Rightarrow>
            [about ''WARNING'' ''queued event delivery rescheduled'' [(''attempt'', JNum (of_int (pd_attempts d + 1)))]]
        | Got r \<Rightarrow> if 400 \<le> rs_status r
            then [about ''ERROR'' ''queued event permanently rejected'' [(''statusCode'', JNum (of_int (rs_status r)))]]
            else [about ''INFO'' ''queued event applied successfully'' [(''attempts'', JNum (of_int (pd_attempts d + 1)))]]
        | Crashed _ \<Rightarrow> []))"

definition process_event_log :: "platform \<Rightarrow> settings \<Rightarrow> tick \<Rightarrow> 'c caller \<Rightarrow> string \<Rightarrow> 'c gateway
    \<Rightarrow> (string \<times> log_record) list" where
  "process_event_log P st tk call k g =
     (case (get_delivery k (gw_db g), get_event k (gw_db g)) of
        (Some d, Some ev) \<Rightarrow>
          (let c = normalize_trace_id (tk_fresh tk) (Some (pd_trace d));
               res = fst (call c (pd_payload d) (gw_client g))
           in map (Pair c) (delivery_log d ev res (fst (process_event P st tk call k g))))
      | _ \<Rightarrow> [])"

fun process_all_log :: "platform \<Rightarrow> settings \<Rightarrow> (nat \<Rightarrow> tick) \<Rightarrow> 'c caller \<Rightarrow> string list \<Rightarrow> nat \<Rightarrow> 'c gateway
    \<Rightarrow> (string \<times> log_record) list" where
  "process_all_log P st tks call [] i g = []"
| "process_all_log P st tks call (k # ks) i g = process_event_log P st (tks i) call k g
     @ (case process_event P st (tks i) call k g of
          (Inl _, _) \<Rightarrow> []
        | (Inr _, g') \<Rightarrow> process_all_log P st tks call ks (Suc i) g')"

text \<open>
  One iteration of \<open>run\<close>: an exception that leaves \<open>process_once\<close> is logged there, outside of the
  delivery's trace context.
\<close>

definition iteration_log :: "platform \<Rightarrow> settings \<Rightarrow> datetime \<Rightarrow> (nat \<Rightarrow> tick) \<Rightarrow> 'c caller \<Rightarrow> 'c gateway
    \<Rightarrow> (string \<times> log_record) list" where
  "iteration_log P st t tks call g =
     process_all_log P st tks call (due_event_ids (st_batch_size st) t (gw_db g)) 0 (set_depth g)
     @ (case fst (process_once P st t tks call g) of
          Inl err \<Rightarrow> [(''-'', \<lparr>lr_level = ''ERROR'', lr_message = ''async fallback worker iteration failed'',
            lr_extra = [], lr_exc = Some err\<rparr>)]
        | Inr _ \<Rightarrow> [])"

fun iterations_log :: "platform \<Rightarrow> settings \<Rightarrow> 'c caller \<Rightarrow> (datetime \<times> (nat \<Rightarrow> tick)) list \<Rightarrow> 'c gateway
    \<Rightarrow> (string \<times> log_record) list" where
  "iterations_log P st call [] g = []"
| "iterations_log P st call ((t, tks) # polls) g = iteration_log P st t tks call g
     @ iterations_log P st call polls (snd (process_once P st t tks call g))"

definition worker_log :: "platform \<Rightarrow> settings \<Rightarrow> 'c caller \<Rightarrow> (datetime \<times> (nat \<Rightarrow> tick)) list \<Rightarrow> 'c gateway
    \<Rightarrow> (string \<times> log_record) list" where
  "worker_log P st call polls g =
     (let plain = (\<lambda>message. (''-'', \<lparr>lr_level = ''INFO'', lr_message = message, lr_extra = [], lr_exc = None\<rparr>))
      in [plain ''async fallback worker started''] @ iterations_log P st call polls g
        @ [plain ''async fallback worker stopped''])"

section \<open>Applying a transaction\<close>

text \<open>Only these two outcomes are logged; a replay found after a lost race for the id is not.\<close>

definition apply_log :: "platform \<Rightarrow> env \<Rightarrow> (acct_db \<Rightarrow> acct_db) \<Rightarrow> string \<Rightarrow> transaction_create \<Rightarrow> acct_db
    \<Rightarrow> (string \<times> log_record) list" where
  "apply_log P e w account_id c db =
     (let about = (\<lambda>message. [(trace e, log_about ''INFO'' message (tc_event_id c) account_id [])]) in
      case fst (apply_tx P e w account_id c db) of
        Inl _ \<Rightarrow> []
      | Inr (_, created) \<Rightarrow>
          if get_transaction (tc_event_id c) db \<noteq> None then about ''transaction replayed''
          else if created then about ''transaction applied''
          else [])"

section \<open>The counters and the log\<close>

definition logged :: "string \<Rightarrow> (string \<times> log_record) list \<Rightarrow> nat" where
  "logged message L = length (filter (\<lambda>(_, r). lr_message r = message) L)"

lemma logged_simps [simp]:
  "logged message [] = 0" "logged message (xs @ ys) = logged message xs + logged message ys"
  "logged message (x # xs) = (if lr_message (snd x) = message then 1 else 0) + logged message xs"
  by (simp_all add: logged_def split: prod.split)

definition log_counts :: "metrics \<Rightarrow> (string \<times> log_record) list \<Rightarrow> metrics \<Rightarrow> bool" where
  "log_counts m L m' \<longleftrightarrow> m_processed m' = m_processed m + logged ''queued event applied successfully'' L
     \<and> m_retried m' = m_retried m + logged ''queued event delivery rescheduled'' L
     \<and> m_failed m' = m_failed m + logged ''queued event permanently rejected'' L"

lemma log_counts_Nil [simp]: "log_counts m [] m' \<longleftrightarrow> m_processed m' = m_processed m \<and> m_retried m' = m_retried m \<and> m_failed m' = m_failed m"
  by (simp add: log_counts_def)

lemma log_counts_append: "log_counts m L m1 \<Longrightarrow> log_counts m1 L' m' \<Longrightarrow> log_counts m (L @ L') m'"
  by (simp add: log_counts_def)

lemma delivery_log_counts: "log_counts m (map (Pair c) (delivery_log d ev res out)) (count_delivery res out m)"
  by (simp add: log_counts_def delivery_log_def count_delivery_def log_about_def Let_def split: sum.split call_result.split)

lemma process_event_counts:
  "log_counts (gw_metrics g) (process_event_log P st tk call k g) (gw_metrics (snd (process_event P st tk call k g)))"
  using delivery_log_counts
  by (auto simp: process_event_log_def process_event_def Let_def split: option.split prod.split)

lemma process_all_counts:
  "log_counts (gw_metrics g) (process_all_log P st tks call ks i g) (gw_metrics (snd (process_all P st tks call ks i n g)))"
proof (induction ks arbitrary: i n g)
  case Nil
  then show ?case by simp
next
  case (Cons k ks)
  obtain out g' where pe: "process_event P st (tks i) call k g = (out, g')" by fastforce
  with process_event_counts [of g P st "tks i" call k] Cons show ?case
    by (cases out) (auto intro: log_counts_append)
qed


lemma iteration_counts:
  "log_counts (gw_metrics g) (iteration_log P st t tks call g) (gw_metrics (snd (process_once P st t tks call g)))"
proof -
  let ?ks = "due_event_ids (st_batch_size st) t (gw_db g)"
  obtain out g' where pa: "process_all P st tks call ?ks 0 0 (set_depth g) = (out, g')" by fastforce
  with process_all_counts [of "set_depth g" P st tks call ?ks 0 0] show ?thesis
    by (cases out) (simp_all add: iteration_log_def process_once_def log_counts_def set_depth_def)
qed

lemma iterations_counts:
  "log_counts (gw_metrics g) (iterations_log P st call polls g) (gw_metrics (worker_run P st call polls g))"
  by (induction P st call polls g rule: worker_run.induct) (auto intro: log_counts_append iteration_counts)

section \<open>The trace ids in the log\<close>

text \<open>\<open>T k\<close> is the trace id that the delivery of the event \<open>k\<close> carries: the one of its submission.\<close>

definition queue_traces :: "(string \<Rightarrow> string) \<Rightarrow> gw_db \<Rightarrow> bool" where
  "queue_traces T db \<longleftrightarrow> list_all (\<lambda>d. pd_trace d = T (pd_event_id d) \<and> trace_re (pd_trace d)) (gd_deliveries db)"

definition line_traced :: "(string \<Rightarrow> string) \<Rightarrow> string \<times> log_record \<Rightarrow> bool" where
  "line_traced T x = (case (lr_exc (snd x), lr_extra (snd x)) of
     (None, (n, JStr k) # _) \<Rightarrow> n = ''eventId'' \<and> fst x = T k
   | (Some _, []) \<Rightarrow> fst x = ''-'' \<and> lr_message (snd x) = ''async fallback worker iteration failed''
   | _ \<Rightarrow> False)"

lemma queue_traces_kept:
  "queue_traces T db \<Longrightarrow> queue_traces T (settle P s t k a db)"
  "queue_traces T db \<Longrightarrow> queue_traces T (postpone P n err nx t k a db)"
  by (auto simp: queue_traces_def settle_def postpone_def set_rescheduled_def tdel_def list_all_iff)

lemma queue_traces_lookup:
  "queue_traces T db \<Longrightarrow> get_delivery k db = Some d \<Longrightarrow> pd_trace d = T k \<and> trace_re (T k)"
  unfolding get_delivery_def queue_traces_def list_all_iff by (metis tget_Some)

lemma commit_del_traces:
  "commit_then P [DelDelivery k] False db = (out, db') \<Longrightarrow> queue_traces T db \<Longrightarrow> queue_traces T db'"
  by (auto simp: commit_then_def gw_commit_def queue_traces_def tdel_def list_all_iff)

lemma after_delivery_traces:
  assumes "after_delivery P st e j d ev res db = (out, db')" and "ev_id ev = k" and "pd_event_id d = k"
    and "queue_traces T db"
  shows "queue_traces T db'"
  using after_delivery_spec [OF assms(1-3)] queue_traces_kept [OF assms(4)] assms(4)
  by (cases res) (auto split: if_splits)

lemma delivery_log_traced:
  "ev_id ev = k \<Longrightarrow> list_all (line_traced T) (map (Pair (T k)) (delivery_log d ev res out))"
  by (simp add: delivery_log_def line_traced_def log_about_def Let_def split: sum.split call_result.split)

lemma process_event_traces:
  assumes "queue_traces T (gw_db g)" and "\<And>db. queue_traces T db \<Longrightarrow> queue_traces T (tk_others tk db)"
  shows "list_all (line_traced T) (process_event_log P st tk call k g)
    \<and> queue_traces T (gw_db (snd (process_event P st tk call k g)))"
proof (cases "get_delivery k (gw_db g)")
  case None
  with assms(1) show ?thesis by (simp add: process_event_log_def process_event_def)
next
  case (Some d)
  show ?thesis
  proof (cases "get_event k (gw_db g)")
    case None
    obtain out db where "commit_then P [DelDelivery k] False (gw_db g) = (out, db)" by fastforce
    with commit_del_traces [OF this assms(1)] Some None show ?thesis
      by (simp add: process_event_log_def process_event_def)
  next
    case ev: (Some ev)
    let ?c = "normalize_trace_id (tk_fresh tk) (Some (pd_trace d))"
    let ?e = "(tk_env tk)\<lparr>trace := ?c\<rparr>"
    have ids: "ev_id ev = k" "pd_event_id d = k" using get_event_Some_id [OF ev] get_delivery_Some_id [OF Some] by simp_all
    have c: "?c = T k" using queue_traces_lookup [OF assms(1) Some] by (simp add: normalize_trace_id_accepts)
    obtain res cl where call: "call (T k) (pd_payload d) (gw_client g) = (res, cl)" by fastforce
    obtain out db where ad: "after_delivery P st ?e (tk_jitter tk) d ev res (tk_others tk (gw_db g)) = (out, db)" by fastforce
    from after_delivery_traces [OF ad ids assms(2)] assms(1) have "queue_traces T db" by simp
    with Some ev call ad c delivery_log_traced [OF ids(1)] show ?thesis
      by (simp add: process_event_log_def process_event_def Let_def)
  qed
qed

lemma process_all_traces:
  assumes "queue_traces T (gw_db g)" and "\<And>i db. queue_traces T db \<Longrightarrow> queue_traces T (tk_others (tks i) db)"
  shows "list_all (line_traced T) (process_all_log P st tks call ks i g)
    \<and> queue_traces T (gw_db (snd (process_all P st tks call ks i n g)))"
  using assms(1)
proof (induction ks arbitrary: i n g)
  case Nil
  then show ?case by simp
next
  case (Cons k ks)
  obtain out g' where pe: "process_event P st (tks i) call k g = (out, g')" by fastforce
  with process_event_traces [where tk = "tks i" and k = k and P = P and st = st and call = call, OF Cons.prems assms(2)] Cons.IH show ?case
    by (cases out) auto
qed

lemma iteration_traces:
  assumes "queue_traces T (gw_db g)" and "\<And>i db. queue_traces T db \<Longrightarrow> queue_traces T (tk_others (tks i) db)"
  shows "list_all (line_traced T) (iteration_log P st t tks call g)
    \<and> queue_traces T (gw_db (snd (process_once P st t tks call g)))"
proof -
  let ?ks = "due_event_ids (st_batch_size st) t (gw_db g)"
  obtain out g' where pa: "process_all P st tks call ?ks 0 0 (set_depth g) = (out, g')" by fastforce
  have "queue_traces T (gw_db (set_depth g))" using assms(1) by (simp add: set_depth_def)
  from process_all_traces [where tks = tks and ks = ?ks and i = 0 and n = 0 and P = P and st = st and call = call,
      OF this assms(2)] pa show ?thesis
    by (cases out) (simp_all add: iteration_log_def process_once_def set_depth_def line_traced_def)
qed

lemma iterations_traces:
  assumes "queue_traces T (gw_db g)"
    and "\<forall>(t, tks) \<in> set polls. \<forall>i db. queue_traces T db \<longrightarrow> queue_traces T (tk_others (tks i) db)"
  shows "list_all (line_traced T) (iterations_log P st call polls g)"
  using assms
proof (induction polls arbitrary: g)
  case Nil
  then show ?case by simp
next
  case (Cons poll polls)
  obtain t tks where poll: "poll = (t, tks)" by fastforce
  with Cons.prems(2) have "\<And>i db. queue_traces T db \<Longrightarrow> queue_traces T (tk_others (tks i) db)" by auto
  from iteration_traces [where tks = tks and t = t and P = P and st = st and call = call, OF Cons.prems(1) this] Cons.IH Cons.prems(2) poll show ?case by simp
qed

section \<open>The log of a submission\<close>

lemma submit_log_trace: "\<forall>x \<in> set (submit_log P st e w1 w2 call c g). fst x = trace e"
  by (auto simp: submit_log_def)

lemma apply_log_trace: "\<forall>x \<in> set (apply_log P e w account_id c db). fst x = trace e"
  by (auto simp: apply_log_def Let_def split: sum.split)

text \<open>The message a new event's submission ends with.\<close>

definition outcome_message :: "settings \<Rightarrow> call_result \<Rightarrow> string list" where
  "outcome_message st res = (case res of
     Got r \<Rightarrow> if 400 \<le> rs_status r
       then (case downstream_detail r of Inl _ \<Rightarrow> [] | Inr _ \<Rightarrow> [''downstream rejected event''])
       else [''event applied successfully'']
   | Unavailable _ \<Rightarrow> if st_fallback_enabled st then [''account service unavailable; event queued'']
       else [''account service unavailable'']
   | Crashed _ \<Rightarrow> [])"

lemma after_call_logged:
  assumes "get_event (ec_event_id c) db = Some ev"
  shows "map lr_message (after_call_log P st e c res db) = outcome_message st res"
proof (cases res)
  case (Unavailable m)
  obtain out db' where "submit_queued P e c db = (out, db')" by fastforce
  with submit_queued_spec [OF this] assms Unavailable show ?thesis
    by (auto simp: after_call_log_def outcome_message_def gw_commit_status log_about_def Let_def split: sum.split)
qed (use assms in \<open>auto simp: after_call_log_def outcome_message_def gw_commit_status log_about_def Let_def
    split: sum.split\<close>)

lemma submission_logged:
  assumes "get_event (ec_event_id c) (gw_db g) = None" and "get_event (ec_event_id c) (w1 (gw_db g)) = None"
    and "spares (ec_event_id c) w2"
    and "call (trace e) (payload_of c) (gw_client g) = (res, cl)"
  shows "map (lr_message \<circ> snd) (submit_log P st e w1 w2 call c g) = ''event received'' # outcome_message st res"
proof -
  obtain r db where start: "submit_start P e w1 c (gw_db g) = (r, db)" by fastforce
  with submit_start_new [of c "gw_db g" w1 P e] assms(1,2) have r: "r = None"
    and ev: "get_event (ec_event_id c) db \<noteq> None" by auto
  with assms(3) obtain ev where "get_event (ec_event_id c) (w2 db) = Some ev" by (auto simp: spares_def)
  from after_call_logged [OF this, of P st e res] start r assms(1,4) show ?thesis
    by (simp add: submit_log_def submit_start_log_def log_about_def Let_def comp_def)
qed

text \<open>
  C14. Two submissions of one new event id race: both look it up and find nothing, the other one
  commits its INSERT first. Then this one's INSERT is refused, it makes no call of its own, changes no
  event or delivery, and answers as a replay (200) when the data agree and with 409 when they do not:
  of two racing submissions one at most reaches the account service. The audit trail records that answer,
  the log does not: all it shows of this submission is that the event was received.
\<close>

theorem racing_submissions:
  assumes "get_event (ec_event_id c) (gw_db g) = None" and "get_event (ec_event_id c) (w1 (gw_db g)) = Some ev"
    and "submit P st e w1 w2 call c g = (out, g')"
  shows "gw_client g' = gw_client g \<and> gw_metrics g' = gw_metrics g
    \<and> gd_events (gw_db g') = gd_events (w1 (gw_db g)) \<and> gd_deliveries (gw_db g') = gd_deliveries (w1 (gw_db g))
    \<and> out = (if same_event ev c then Inr (ev, False)
        else Inl (http_exception 409 ''EVENT_ID_CONFLICT'' ''eventId already exists''))
    \<and> (\<exists>a. gd_audits (gw_db g') = insert_audit P a (gd_audits (w1 (gw_db g)))
        \<and> au_action a = (if same_event ev c then ''EVENT_REPLAYED'' else ''EVENT_CONFLICT_REJECTED''))
    \<and> map (lr_message \<circ> snd) (submit_log P st e w1 w2 call c g) = [''event received'']"
proof (cases "submit_start P e w1 c (gw_db g)")
  case (Pair r db)
  from Pair assms(1,2) have "\<exists>a. gd_audits db = insert_audit P a (gd_audits (w1 (gw_db g)))
        \<and> au_action a = (if same_event ev c then ''EVENT_REPLAYED'' else ''EVENT_CONFLICT_REJECTED'')"
    by (auto simp: submit_start_def gw_commit_insert new_event_def event_replay_def event_conflict_def gw_audit_eq
        new_audit_def split: if_splits)
  with Pair submit_start_raced [of c "gw_db g" w1 ev P e, OF assms(1,2)] assms(3) show ?thesis
    by (auto simp: submit_def known_answer_def same_tables_def conflict_def submit_log_def submit_start_log_def
      log_about_def Let_def assms(1))
qed

theorem racing_submissions_witness:
  "gw_client (snd (submit exact_platform default_settings sample_env
     (\<lambda>_. gw_db (one_event sample_event (0::nat))) id (\<lambda>tid p n. (Crashed ''x'', Suc n)) sample_event
     (fresh_gateway 7))) = 7"
proof -
  obtain out g' where eq: "submit exact_platform default_settings sample_env
    (\<lambda>_. gw_db (one_event sample_event (0::nat))) id (\<lambda>tid p n. (Crashed ''x'', Suc n)) sample_event
    (fresh_gateway 7) = (out, g')" by fastforce
  from racing_submissions [OF _ one_event_get eq] have "gw_client g' = 7" by simp
  with eq show ?thesis by simp
qed

section \<open>What the log tells\<close>

text \<open>
  C19. The worker's log tells what happened: over any polls there are as many lines of a message as the
  counter of that outcome went up; each line about a delivery, as the formatter renders it, names its event
  and carries the trace id of the submission that queued it; but the number of attempts it was given is in
  no line, and the line for an exception that cut a poll short names no event and carries no trace id.
\<close>

theorem worker_log_exact:
  assumes "queue_traces T (gw_db g)"
    and "\<forall>(t, tks) \<in> set polls. \<forall>i db. queue_traces T db \<longrightarrow> queue_traces T (tk_others (tks i) db)"
  shows "let m = gw_metrics g; m' = gw_metrics (worker_run P st call polls g); L = worker_log P st call polls g in
    m_processed m' = m_processed m + logged ''queued event applied successfully'' L
    \<and> m_retried m' = m_retried m + logged ''queued event delivery rescheduled'' L
    \<and> m_failed m' = m_failed m + logged ''queued event permanently rejected'' L
    \<and> (\<forall>(tid, r) \<in> set (butlast (tl L)). let line = map_of (gateway_log_line timestamp tid trace_text r) in
        line ''attempt'' = None \<and> line ''attempts'' = None \<and>
        (case lr_exc r of
           None \<Rightarrow> \<exists>k. line ''eventId'' = Some (JStr k) \<and> line ''traceId'' = Some (JStr (T k))
         | Some _ \<Rightarrow> line ''eventId'' = None \<and> line ''traceId'' = Some (JStr ''-'')))"
proof -
  let ?I = "iterations_log P st call polls g"
  have mid: "butlast (tl (worker_log P st call polls g)) = ?I" by (simp add: worker_log_def Let_def)
  have rendered: "let line = map_of (gateway_log_line timestamp (fst x) trace_text (snd x)) in
        line ''attempt'' = None \<and> line ''attempts'' = None \<and>
        (case lr_exc (snd x) of
           None \<Rightarrow> \<exists>k. line ''eventId'' = Some (JStr k) \<and> line ''traceId'' = Some (JStr (T k))
         | Some _ \<Rightarrow> line ''eventId'' = None \<and> line ''traceId'' = Some (JStr ''-''))" if "x \<in> set ?I" for x
  proof -
    have "line_traced T x" using iterations_traces [OF assms] that by (simp add: list_all_iff)
    with log_line_fields [of "''event-gateway''" timestamp "fst x" trace_text "snd x"] show ?thesis
      by (auto simp: line_traced_def gateway_log_line_def log_keys_def Let_def split: option.splits list.splits json.splits)
  qed
  from iterations_counts [of g P st call polls] ballI [of "set ?I", OF rendered] show ?thesis
    unfolding Let_def mid case_prod_beta by (simp add: worker_log_def log_counts_def)
qed

text \<open>
  Two polls: the first finds the account service unavailable and reschedules the queued event, the call
  of the second crashes.
\<close>

definition flaky_caller :: "nat caller" where
  "flaky_caller tid p n = (if n = 0 then Unavailable ''timeout'' else Crashed ''ReadError'', Suc n)"

theorem worker_log_exact_witness:
  "let polls = [(utc 2000, \<lambda>_. sample_tick), (utc 9000000, \<lambda>_. sample_tick)];
       L = worker_log exact_platform default_settings flaky_caller polls (queued_gateway 0) in
   map (\<lambda>(tid, r). (tid, lr_message r)) L =
     [(''-'', ''async fallback worker started''), (''trace-1'', ''queued event delivery rescheduled''),
      (''-'', ''async fallback worker iteration failed''), (''-'', ''async fallback worker stopped'')]
   \<and> m_retried (gw_metrics (worker_run exact_platform default_settings flaky_caller polls (queued_gateway 0))) = 1"
proof -
  let ?polls = "[(utc 2000, \<lambda>_ :: nat. sample_tick), (utc 9000000, \<lambda>_. sample_tick)]"
  let ?L = "worker_log exact_platform default_settings flaky_caller ?polls (queued_gateway 0)"
  have L: "map (\<lambda>(tid, r). (tid, lr_message r)) ?L =
     [(''-'', ''async fallback worker started''), (''trace-1'', ''queued event delivery rescheduled''),
      (''-'', ''async fallback worker iteration failed''), (''-'', ''async fallback worker stopped'')]" by code_simp
  have "queue_traces (\<lambda>_. ''trace-1'') (gw_db (queued_gateway 0))" by code_simp
  from worker_log_exact [where P = exact_platform and st = default_settings and call = flaky_caller and polls = ?polls, OF this]
  have "m_retried (gw_metrics (worker_run exact_platform default_settings flaky_caller ?polls (queued_gateway 0)))
      = m_retried (gw_metrics (queued_gateway (0 :: nat))) + logged ''queued event delivery rescheduled'' ?L"
    by (simp add: Let_def)
  moreover have "m_retried (gw_metrics (queued_gateway (0 :: nat))) = 0" by code_simp
  moreover have "logged ''queued event delivery rescheduled'' ?L
      = length (filter (\<lambda>(tid, m). m = ''queued event delivery rescheduled'') (map (\<lambda>(tid, r). (tid, lr_message r)) ?L))"
    by (simp add: logged_def filter_map comp_def case_prod_unfold)
  ultimately show ?thesis using L by (simp add: Let_def)
qed

end
