(* ===== verification/GatewayRoutes.thy ===== *)
theory GatewayRoutes
  imports Applications HandlerLog
begin

text \<open>
  The gateway's routes behind its middlewares (\<open>main.py\<close> with the routers of \<open>app/api\<close>), for requests
  served one at a time: which handler answers which endpoint, with the trace id the middleware set. The
  matching of paths to endpoints, the parsing of bodies and the rendering of answers are the framework's:
  a request comes with its endpoint, and the renderings are parameters. The page of metrics
  is what the library renders from the counters.
\<close>

section \<open>The routes\<close>

datatype route_call =
    PostEvent raw_event
  | GetEvent string
  | ListEvents string int int
  | AccountBalance string
  | EventAudit string
  | HealthCheck bool "int option"
  | MetricsPage

record renderers =
  rn_event :: "event_response \<Rightarrow> json"
  rn_list :: "event_list \<Rightarrow> json"
  rn_audit :: "audit_response list \<Rightarrow> json"
  rn_metrics :: "(string \<times> string \<times> string \<Rightarrow> nat) \<Rightarrow> (string \<times> string \<Rightarrow> rat list) \<Rightarrow> string list \<Rightarrow> metrics \<Rightarrow> string"
  rn_metrics_type :: string

type_synonym 'c balance_caller = "string \<Rightarrow> string \<Rightarrow> 'c \<Rightarrow> call_result \<times> 'c"

definition gateway_audit_for_event :: "string \<Rightarrow> gw_db \<Rightarrow> audit_response list" where
  "gateway_audit_for_event k db = audit_for_event k (gd_audits db)"

definition gateway_router :: "platform \<Rightarrow> settings \<Rightarrow> app_settings \<Rightarrow> renderers \<Rightarrow> datetime \<Rightarrow> 'c caller
    \<Rightarrow> 'c balance_caller \<Rightarrow> route_call \<Rightarrow> 'c gateway app" where
  "gateway_router P st cfg rn t call bal rc w =
     (let g = pr_state w; e = \<lparr>now = t, trace = current_trace_id w\<rparr> in
      case rc of
        PostEvent raw \<Rightarrow> (case validate_event P raw of
            Inl errs \<Rightarrow> (Inl (request_error P errs), w)
          | Inr c \<Rightarrow> (let (out, g') = submit_event P st e id id call c g
              in (ok_or_raise (reply_response (rn_event rn)) out,
                  w\<lparr>pr_state := g', pr_log := pr_log w @ submit_log P st e id id call c g\<rparr>)))
      | GetEvent k \<Rightarrow> (ok_or_raise (\<lambda>v. json_response 200 (rn_event rn v)) (get_event_route k (gw_db g)), w)
      | ListEvents acc lmt off \<Rightarrow>
          (ok_or_raise (\<lambda>v. json_response 200 (rn_list rn v)) (list_events P acc lmt off (gw_db g)), w)
      | AccountBalance acc \<Rightarrow> (let (res, cl) = bal (trace e) acc (gw_client g)
          in (balance_proxy res, w\<lparr>pr_state := g\<lparr>gw_client := cl\<rparr>\<rparr>))
      | EventAudit k \<Rightarrow> (Inr (json_response 200 (rn_audit rn (gateway_audit_for_event k (gw_db g)))), w)
      | HealthCheck db_works account_service \<Rightarrow>
          (Inr (health cfg st db_works (Some (delivery_count (gw_db g))) account_service), w)
      | MetricsPage \<Rightarrow> (Inr (metrics_page (rn_metrics_type rn)
          (rn_metrics rn (pr_requests w) (pr_latency w) (pr_rejections w) (gw_metrics g))), w))"

section \<open>Which trace ids a handler writes\<close>

text \<open>
  A database change under one trace id: the audit records it adds carry the id, and so does every
  delivery it creates or replaces.
\<close>

definition traced :: "string \<Rightarrow> gw_db \<Rightarrow> gw_db \<Rightarrow> bool" where
  "traced tid db db' \<longleftrightarrow> (\<exists>new. gd_audits db' = gd_audits db @ new \<and> (\<forall>a \<in> set new. au_trace a = tid))
     \<and> (\<forall>k d. get_delivery k db' = Some d \<longrightarrow> get_delivery k db = Some d \<or> pd_trace d = tid)"

fun write_traced :: "string \<Rightarrow> gw_write \<Rightarrow> bool" where
  "write_traced tid (GwAudit a) = (au_trace a = tid)"
| "write_traced tid (InsDelivery d) = (pd_trace d = tid)"
| "write_traced tid (Requeue k p t tm) = (t = tid)"
| "write_traced tid (Reschedule k n err nxt tm) = False"
| "write_traced tid _ = True"

lemma traced_refl [simp]: "traced tid db db"
  by (simp add: traced_def)

lemma traced_trans:
  assumes "traced tid db1 db2" and "traced tid db2 db3"
  shows "traced tid db1 db3"
proof -
  obtain new where "gd_audits db2 = gd_audits db1 @ new" "\<forall>a \<in> set new. au_trace a = tid"
    using assms(1) by (auto simp: traced_def)
  moreover obtain new' where "gd_audits db3 = gd_audits db2 @ new'" "\<forall>a \<in> set new'. au_trace a = tid"
    using assms(2) by (auto simp: traced_def)
  ultimately have "gd_audits db3 = gd_audits db1 @ new @ new'" "\<forall>a \<in> set (new @ new'). au_trace a = tid" by auto
  with assms show ?thesis unfolding traced_def by blast
qed

lemma gw_exec_traced:
  assumes "write_traced tid x" and "gw_exec P x db = Inr db'"
  shows "traced tid db db'"
proof (cases x)
  case (InsDelivery d)
  with assms show ?thesis
    by (auto simp: traced_def upd_deliveries_def get_delivery_def tget_tins stored_delivery_def split: option.splits if_splits)
next
  case (Requeue k p t tm)
  with assms show ?thesis
    by (auto simp: traced_def upd_deliveries_def get_delivery_def tget_tupd set_requeued_def split: option.splits if_splits)
next
  case (DelDelivery k)
  with assms show ?thesis by (auto simp: traced_def get_delivery_def tget_tdel split: if_splits)
qed (use assms in \<open>auto simp: traced_def upd_events_def insert_audit_def get_delivery_def split: option.splits\<close>)

lemma gw_flush_traced: "list_all (write_traced tid) ws \<Longrightarrow> gw_flush P ws db = Inr db' \<Longrightarrow> traced tid db db'"
  by (induction ws arbitrary: db) (auto split: sum.splits intro: traced_trans gw_exec_traced)

lemma gw_commit_traced: "gw_commit P ws db = (err, db') \<Longrightarrow> list_all (write_traced tid) ws \<Longrightarrow> traced tid db db'"
  by (auto simp: gw_commit_def split: sum.splits intro: gw_flush_traced)

lemma gw_audit_traced: "traced (trace e) db (gw_audit P e ac out ev acc det db)"
  unfolding gw_audit_def
  by (cases "gw_commit P [GwAudit (new_audit e ac out ev acc det)] db") (auto intro: gw_commit_traced)

lemma commit_audit_traced:
  "gw_commit P ws db = (err, db1) \<Longrightarrow> list_all (write_traced (trace e)) ws
   \<Longrightarrow> traced (trace e) db (gw_audit P e ac out ev acc det db1)"
  by (rule traced_trans [OF gw_commit_traced gw_audit_traced])

lemma submit_start_traced: "submit_start P e id c db = (out, db') \<Longrightarrow> traced (trace e) db db'"
  by (auto simp: submit_start_def event_conflict_def event_replay_def gw_audit_traced
      split: option.splits if_splits prod.splits intro: commit_audit_traced)

lemma enqueue_traced [simp]: "write_traced (trace e) (enqueue e k acc p (trace e) db)"
  by (simp add: enqueue_def new_delivery_def split: option.split)

lemma after_call_traced: "after_call P st e c res db = (out, db') \<Longrightarrow> traced (trace e) db db'"
  by (auto simp: after_call_def submit_rejected_def submit_applied_def submit_queued_def submit_unavailable_def
      split: call_result.splits if_splits prod.splits option.splits sum.splits
      intro: commit_audit_traced)
    (auto elim!: gw_commit_traced)

lemma submit_traced:
  assumes "submit P st e id id call c g = (out, g')"
  shows "traced (trace e) (gw_db g) (gw_db g')"
proof -
  obtain r db1 where s: "submit_start P e id c (gw_db g) = (r, db1)" by fastforce
  show ?thesis
  proof (cases r)
    case (Some out')
    with assms s submit_start_traced [OF s] show ?thesis by (auto simp: submit_def)
  next
    case None
    obtain res cl where call: "call (trace e) (payload_of c) (gw_client g) = (res, cl)" by fastforce
    obtain out2 db2 where ac: "after_call P st e c res db1 = (out2, db2)" by fastforce
    from assms s None call ac have "gw_db g' = db2" by (auto simp: submit_def)
    with traced_trans [OF submit_start_traced [OF s] after_call_traced [OF ac]] show ?thesis by simp
  qed
qed

lemma submit_event_traced:
  "submit_event P st e id id call c g = (out, g') \<Longrightarrow> traced (trace e) (gw_db g) (gw_db g')"
  by (auto simp: submit_event_def split: prod.splits sum.splits dest: submit_traced)

section \<open>One trace id through the gateway\<close>

text \<open>A submission through the whole gateway: its answer, its log, and what it writes.\<close>

lemma submission_traced:
  assumes "documented_build build" and "admitted st rd rq (pr_limiter w)"
    and "c = normalize_trace_id (rg_fresh rd) (rq_trace rq)"
    and "validate_event P raw = Inr cmd"
    and "submit_event P st \<lparr>now = t, trace = c\<rparr> id id call cmd (pr_state w) = (out, g')"
    and "\<forall>m. out \<noteq> Inl (OtherException m)"
  shows "\<exists>r w' lines line. gateway_app build P st rd rq (gateway_router P st cfg rn t call bal (PostEvent raw)) w = (Inr r, w')
    \<and> pr_state w' = g' \<and> header ''X-Trace-ID'' r = Some c
    \<and> traced c (gw_db (pr_state w)) (gw_db g')
    \<and> pr_log w' = pr_log w @ submit_log P st \<lparr>now = t, trace = c\<rparr> id id call cmd (pr_state w) @ lines @ [(c, line)]
    \<and> (\<forall>x \<in> set lines. fst x = c) \<and> lr_message line = ''request completed''"
proof -
  let ?router = "gateway_router P st cfg rn t call bal (PostEvent raw)"
  have tid: "current_trace_id (enter_trace c w) = c" by simp
  let ?w1 = "(enter_trace c w)\<lparr>pr_state := g',
    pr_log := pr_log w @ submit_log P st \<lparr>now = t, trace = c\<rparr> id id call cmd (pr_state w)\<rparr>"
  have run: "?router (enter_trace c w) = (ok_or_raise (reply_response (rn_event rn)) out, ?w1)"
    using assms(4,5) tid by (simp add: gateway_router_def Let_def)
  have handled: "\<not> unexpected (ok_or_raise (reply_response (rn_event rn)) out)"
    using assms(6) by (auto simp: unexpected_def ok_or_raise_def split: sum.splits exn.splits)
  have "ctx_var ?w1 = c" by simp
  from gateway_app_handled [where router = ?router and P = P, OF assms(1-3) run this handled]
    submit_event_traced [OF assms(5)] show ?thesis by auto
qed

end
