(* ===== verification/Reconciliation.thy ===== *)
theory Reconciliation
  imports GatewaySystem
begin

text \<open>
  What the gateway relies on when it hands an event to the account service, as a locale, and what
  follows for the gateway's own records: an event marked \<open>APPLIED\<close> has its transaction recorded, an
  event marked \<open>FAILED\<close> has none. The lemmas hold for every provider that keeps the contract; the theory
  \<open>EndToEnd\<close> interprets it on the client and the account service.
\<close>

section \<open>The contract of the transaction provider\<close>

text \<open>
  \<open>recorded p cl\<close>: the transaction of payload \<open>p\<close> is in the books; \<open>has k cl\<close>: some transaction has the
  event id \<open>k\<close>; \<open>barred p cl\<close>: the books will never take \<open>p\<close>; \<open>late p cl\<close>: a copy of \<open>p\<close> is still under
  way. Between the gateway and the books anything may happen to a single message; the contract speaks of
  one turn of a call, of the answer when the turn ends the call, and of the late messages, which arrive
  (\<open>drift\<close>) when the gateway does not expect them.
\<close>

locale transaction_provider =
  fixes send :: "'c sender"
    and drift :: "'c \<Rightarrow> 'c \<Rightarrow> bool"
    and recorded :: "payload \<Rightarrow> 'c \<Rightarrow> bool"
    and barred :: "payload \<Rightarrow> 'c \<Rightarrow> bool"
    and has :: "string \<Rightarrow> 'c \<Rightarrow> bool"
    and late :: "payload \<Rightarrow> 'c \<Rightarrow> bool"
    and pinv :: "'c \<Rightarrow> bool"
    and good :: "payload \<Rightarrow> bool"
  assumes recorded_has: "recorded p cl \<Longrightarrow> has (pl_event_id p) cl"
    and send_inv: "pinv cl \<Longrightarrow> good p \<Longrightarrow> send tid p pr cl = (out, cl') \<Longrightarrow> pinv cl'"
    and send_keeps: "pinv cl \<Longrightarrow> good p \<Longrightarrow> send tid p pr cl = (out, cl') \<Longrightarrow> recorded q cl \<Longrightarrow> recorded q cl'"
    and send_bars: "pinv cl \<Longrightarrow> good p \<Longrightarrow> send tid p pr cl = (out, cl') \<Longrightarrow> barred q cl \<Longrightarrow> barred q cl'"
    and only_own: "pinv cl \<Longrightarrow> good p \<Longrightarrow> send tid p pr cl = (out, cl') \<Longrightarrow> has k cl' \<Longrightarrow> \<not> has k cl
      \<Longrightarrow> k = pl_event_id p \<and> recorded p cl'"
    and only_late: "send tid p pr cl = (out, cl') \<Longrightarrow> late q cl' \<Longrightarrow> late q cl \<or> q = p"
    and accepted: "pinv cl \<Longrightarrow> good p \<Longrightarrow> send tid p pr cl = (Inl (Got r), cl') \<Longrightarrow> rs_status r < 400 \<Longrightarrow> recorded p cl'"
    and refused: "pinv cl \<Longrightarrow> good p \<Longrightarrow> send tid p pr cl = (Inl (Got r), cl') \<Longrightarrow> 400 \<le> rs_status r
      \<Longrightarrow> (has (pl_event_id p) cl \<Longrightarrow> recorded p cl) \<Longrightarrow> \<not> has (pl_event_id p) cl' \<and> barred p cl'"
    and drift_inv: "pinv cl \<Longrightarrow> (\<And>q. late q cl \<Longrightarrow> good q) \<Longrightarrow> drift cl cl' \<Longrightarrow> pinv cl'"
    and drift_keeps: "pinv cl \<Longrightarrow> (\<And>q. late q cl \<Longrightarrow> good q) \<Longrightarrow> drift cl cl' \<Longrightarrow> recorded q cl \<Longrightarrow> recorded q cl'"
    and drift_bars: "pinv cl \<Longrightarrow> (\<And>q. late q cl \<Longrightarrow> good q) \<Longrightarrow> drift cl cl' \<Longrightarrow> barred q cl \<Longrightarrow> barred q cl'"
    and drift_late: "drift cl cl' \<Longrightarrow> late q cl' \<Longrightarrow> late q cl"
    and drift_own: "pinv cl \<Longrightarrow> (\<And>q. late q cl \<Longrightarrow> good q) \<Longrightarrow> drift cl cl' \<Longrightarrow> has k cl' \<Longrightarrow> \<not> has k cl
      \<Longrightarrow> \<exists>q. late q cl \<and> pl_event_id q = k \<and> \<not> barred q cl \<and> recorded q cl'"
begin

text \<open>A turn that ends without an answer says nothing, but it recorded nothing of another event.\<close>

lemma others_unchanged:
  assumes "pinv cl" and "good p" and "send tid p pr cl = (out, cl')" and "k \<noteq> pl_event_id p" and "\<not> has k cl"
  shows "\<not> has k cl'"
  using only_own [OF assms(1-3), of k] assms(4,5) by blast

end

section \<open>What the gateway's records say of the books\<close>

definition answer_true :: "(payload \<Rightarrow> 'c \<Rightarrow> bool) \<Rightarrow> (payload \<Rightarrow> 'c \<Rightarrow> bool) \<Rightarrow> (string \<Rightarrow> 'c \<Rightarrow> bool) \<Rightarrow> call_result \<Rightarrow> payload \<Rightarrow> 'c \<Rightarrow> bool" where
  "answer_true recorded barred has res p cl \<longleftrightarrow> (case res of
     Got r \<Rightarrow> if rs_status r < 400 then recorded p cl else \<not> has (pl_event_id p) cl \<and> barred p cl
   | _ \<Rightarrow> True)"

definition stage_true :: "(payload \<Rightarrow> 'c \<Rightarrow> bool) \<Rightarrow> (payload \<Rightarrow> 'c \<Rightarrow> bool) \<Rightarrow> (string \<Rightarrow> 'c \<Rightarrow> bool) \<Rightarrow> flight \<Rightarrow> 'c \<Rightarrow> bool" where
  "stage_true recorded barred has f cl \<longleftrightarrow> (case fl_stage f of
     LookedUp _ \<Rightarrow> True
   | Sending _ \<Rightarrow> True
   | Answered res \<Rightarrow> answer_true recorded barred has res (payload_of (fl_cmd f)) cl)"

definition worker_true :: "(payload \<Rightarrow> 'c \<Rightarrow> bool) \<Rightarrow> (payload \<Rightarrow> 'c \<Rightarrow> bool) \<Rightarrow> (string \<Rightarrow> 'c \<Rightarrow> bool) \<Rightarrow> worker \<Rightarrow> 'c \<Rightarrow> bool" where
  "worker_true recorded barred has wk cl \<longleftrightarrow> (case wk of
     Delivered d ev res \<Rightarrow> answer_true recorded barred has res (pd_payload d) cl | _ \<Rightarrow> True)"

definition status_true :: "(payload \<Rightarrow> 'c \<Rightarrow> bool) \<Rightarrow> (payload \<Rightarrow> 'c \<Rightarrow> bool) \<Rightarrow> (string \<Rightarrow> 'c \<Rightarrow> bool) \<Rightarrow> proc_status \<Rightarrow> event_create \<Rightarrow> 'c \<Rightarrow> bool" where
  "status_true recorded barred has s c cl \<longleftrightarrow> (case s of
     APPLIED \<Rightarrow> recorded (payload_of c) cl | FAILED \<Rightarrow> \<not> has (ec_event_id c) cl \<and> barred (payload_of c) cl | _ \<Rightarrow> True)"

text \<open>
  The invariant over the books: every transaction has its event, of the same data; every late message
  is of a stored event; statuses and answers on their way tell the truth.
\<close>

definition books_inv :: "(payload \<Rightarrow> 'c \<Rightarrow> bool) \<Rightarrow> (payload \<Rightarrow> 'c \<Rightarrow> bool) \<Rightarrow> (string \<Rightarrow> 'c \<Rightarrow> bool)
    \<Rightarrow> (payload \<Rightarrow> 'c \<Rightarrow> bool) \<Rightarrow> ('c \<Rightarrow> bool) \<Rightarrow> 'c system \<Rightarrow> bool" where
  "books_inv recorded barred has late pinv s \<longleftrightarrow> pinv (sy_client s)
     \<and> (\<forall>k. sy_origin s k \<noteq> None \<longrightarrow> get_event k (sy_db s) \<noteq> None)
     \<and> (\<forall>k. has k (sy_client s) \<longrightarrow> (\<exists>c. sy_origin s k = Some c \<and> recorded (payload_of c) (sy_client s)))
     \<and> (\<forall>k ev c. get_event k (sy_db s) = Some ev \<longrightarrow> sy_origin s k = Some c
          \<longrightarrow> status_true recorded barred has (ev_status ev) c (sy_client s))
     \<and> (\<forall>q. late q (sy_client s) \<longrightarrow> (\<exists>c. sy_origin s (pl_event_id q) = Some c \<and> q = payload_of c))
     \<and> (\<forall>f \<in> set (sy_flights s). stage_true recorded barred has f (sy_client s))
     \<and> worker_true recorded barred has (sy_worker s) (sy_client s)"

lemma payload_of_id [simp]: "pl_event_id (payload_of c) = ec_event_id c"
  by (simp add: payload_of_def)

lemma stage_true_sel [simp]:
  "stage_true recorded barred has \<lparr>fl_env = e, fl_cmd = c, fl_stage = LookedUp db\<rparr> cl"
  "stage_true recorded barred has \<lparr>fl_env = e, fl_cmd = c, fl_stage = Sending pr\<rparr> cl"
  "stage_true recorded barred has \<lparr>fl_env = e, fl_cmd = c, fl_stage = Answered res\<rparr> cl
     = answer_true recorded barred has res (payload_of c) cl"
  by (simp_all add: stage_true_def)

lemma inactive_true: "\<not> active f \<Longrightarrow> stage_true recorded barred has f cl"
  by (auto simp: stage_true_def active_def split: stage.splits)

lemma origin_id:
  assumes "sys_inv P ok s" and "get_event k (sy_db s) = Some ev" and "sy_origin s k = Some c"
  shows "ec_event_id c = k"
proof -
  have "events_inv P ok (sy_db s) (sy_origin s)" using assms(1) by (simp add: sys_inv_def)
  then have "case get_event k (sy_db s) of None \<Rightarrow> True
      | Some ev \<Rightarrow> \<exists>c. sy_origin s k = Some c \<and> ec_event_id c = k \<and> ok c \<and> stored_row P c ev"
    unfolding events_inv_def by blast
  with assms(2,3) show ?thesis by auto
qed

text \<open>What the worker works on: a queued event, with the payload of its origin.\<close>

lemma worker_event:
  assumes "sys_inv P ok s" and "sy_worker s = Delivering d ev tid pr \<or> sy_worker s = Delivered d ev res"
  shows "\<exists>c. sy_origin s (pd_event_id d) = Some c \<and> pd_payload d = payload_of c \<and> ok c
    \<and> ec_event_id c = pd_event_id d \<and> get_event (pd_event_id d) (sy_db s) = Some ev \<and> ev_status ev = QUEUED
    \<and> get_delivery (pd_event_id d) (sy_db s) = Some d"
proof -
  let ?k = "pd_event_id d"
  have at: "get_delivery ?k (sy_db s) = Some d" "get_event ?k (sy_db s) = Some ev"
    and queue: "queue_inv (sy_db s) (sy_origin s)" and events: "events_inv P ok (sy_db s) (sy_origin s)"
    using assms by (auto simp: sys_inv_def)
  from events have "case get_event ?k (sy_db s) of None \<Rightarrow> True
      | Some ev \<Rightarrow> \<exists>c. sy_origin s ?k = Some c \<and> ec_event_id c = ?k \<and> ok c \<and> stored_row P c ev"
    unfolding events_inv_def by blast
  with at(2) obtain c where c: "sy_origin s ?k = Some c" "ec_event_id c = ?k" "ok c" by auto
  from queue have "(get_delivery ?k (sy_db s) \<noteq> None) = (map_option ev_status (get_event ?k (sy_db s)) = Some QUEUED)"
    and "pd_payload d = payload_of c"
    using at(1) c(1) unfolding queue_inv_def by blast+
  with at c show ?thesis by simp
qed

lemma worker_payload_id:
  assumes "sys_inv P ok s" and "sy_worker s = Delivered d ev res"
  shows "pl_event_id (pd_payload d) = pd_event_id d"
  using worker_event [OF assms(1), where d = d and ev = ev and res = res] assms(2) by auto

text \<open>Steps that touch neither the books nor an event keep it.\<close>

lemma books_inv_same:
  assumes "books_inv recorded barred has late pinv s" and "\<And>k. get_event k db' = get_event k (sy_db s)"
    and "set fs \<subseteq> set (sy_flights s)" and "wk = sy_worker s \<or> worker_true recorded barred has wk (sy_client s)"
  shows "books_inv recorded barred has late pinv (s\<lparr>sy_db := db', sy_flights := fs, sy_worker := wk\<rparr>)"
  using assms unfolding books_inv_def by (auto simp: subset_iff)

text \<open>The outcome of a handler or of the worker: one event gets a status that is true.\<close>

lemma books_inv_outcome:
  assumes "books_inv recorded barred has late pinv s"
    and "\<And>j. get_event j db' = (if j = k then Some ev' else get_event j (sy_db s))"
    and "\<And>c. sy_origin s k = Some c \<Longrightarrow> status_true recorded barred has (ev_status ev') c (sy_client s)"
    and "set fs \<subseteq> set (sy_flights s)" and "wk = sy_worker s \<or> worker_true recorded barred has wk (sy_client s)"
  shows "books_inv recorded barred has late pinv (s\<lparr>sy_db := db', sy_flights := fs, sy_worker := wk\<rparr>)"
  using assms unfolding books_inv_def by (auto simp: subset_iff split: if_splits)

context transaction_provider
begin

text \<open>A call for an event keeps what is true of the others.\<close>

lemma answer_true_kept:
  assumes "pinv cl" and "good p" and "send tid p pr cl = (out, cl')"
    and "answer_true recorded barred has res' q cl" and "pl_event_id q \<noteq> pl_event_id p"
  shows "answer_true recorded barred has res' q cl'"
  using assms(4) send_keeps [OF assms(1-3)] send_bars [OF assms(1-3)] others_unchanged [OF assms(1-3,5)]
  by (auto simp: answer_true_def split: call_result.splits)

lemma stage_true_kept:
  assumes "pinv cl" and "good p" and "send tid p pr cl = (out, cl')"
    and "stage_true recorded barred has f cl" and "active f \<Longrightarrow> flight_id f \<noteq> pl_event_id p"
  shows "stage_true recorded barred has f cl'"
proof (cases "active f")
  case False
  then show ?thesis by (rule inactive_true)
next
  case True
  with assms(5) have ne: "flight_id f \<noteq> pl_event_id p" by simp
  with assms(4) others_unchanged [OF assms(1-3) ne] answer_true_kept [OF assms(1-3), where q = "payload_of (fl_cmd f)"]
  show ?thesis by (auto simp: stage_true_def flight_id_def split: stage.splits)
qed

lemma answer_true_own:
  assumes "pinv cl" and "good p" and "send tid p pr cl = (out, cl')"
    and "has (pl_event_id p) cl \<Longrightarrow> recorded p cl"
  shows "case out of Inl res \<Rightarrow> answer_true recorded barred has res p cl' | Inr _ \<Rightarrow> True"
  using accepted [OF assms(1,2)] refused [OF assms(1,2)] assms(3,4)
  by (auto simp: answer_true_def split: sum.splits call_result.splits)

lemma turned_true:
  "(case out of Inl res \<Rightarrow> answer_true recorded barred has res (payload_of c) cl | Inr _ \<Rightarrow> True)
    \<Longrightarrow> stage_true recorded barred has \<lparr>fl_env = e, fl_cmd = c, fl_stage = turned out\<rparr> cl"
  "(case out of Inl res \<Rightarrow> answer_true recorded barred has res (pd_payload d) cl | Inr _ \<Rightarrow> True)
    \<Longrightarrow> worker_true recorded barred has (turned_worker d ev tid out) cl"
  by (cases out; simp add: worker_true_def)+

text \<open>
  The step of a turn, by a handler or by the worker: the books change for one event that is neither
  \<open>APPLIED\<close> nor \<open>FAILED\<close>.
\<close>

lemma books_inv_call:
  assumes inv: "books_inv recorded barred has late pinv s" and sys: "sys_inv P ok s" and origin: "sy_origin s (ec_event_id c) = Some c"
    and "good (payload_of c)" and call: "send tid (payload_of c) pr (sy_client s) = (out, cl)"
    and ev: "get_event (ec_event_id c) (sy_db s) = Some ev" and open_ev: "\<not> terminal (ev_status ev)"
    and fs: "\<And>f. f \<in> set fs \<Longrightarrow> stage_true recorded barred has f cl" and wk: "worker_true recorded barred has wk cl"
  shows "books_inv recorded barred has late pinv (s\<lparr>sy_client := cl, sy_flights := fs, sy_worker := wk\<rparr>)"
proof -
  let ?k = "ec_event_id c"
  have pinv: "pinv (sy_client s)" using inv by (simp add: books_inv_def)
  note laws = this assms(4) call
  have has: "\<exists>c'. sy_origin s k = Some c' \<and> recorded (payload_of c') cl" if "has k cl" for k
  proof (cases "has k (sy_client s)")
    case True
    with inv send_keeps [OF laws] show ?thesis unfolding books_inv_def by blast
  next
    case False
    with only_own [OF laws that] origin show ?thesis by simp
  qed
  have status: "status_true recorded barred has (ev_status ev') c' cl"
    if "get_event k (sy_db s) = Some ev'" "sy_origin s k = Some c'" for k ev' c'
  proof -
    from inv that have old: "status_true recorded barred has (ev_status ev') c' (sy_client s)"
      unfolding books_inv_def by blast
    show ?thesis
    proof (cases "ev_status ev'")
      case FAILED
      with that ev open_ev have "k \<noteq> ?k" by (auto simp: terminal_def)
      with old FAILED others_unchanged [OF laws, of "ec_event_id c'"] send_bars [OF laws] origin_id [OF sys that]
      show ?thesis by (simp add: status_true_def)
    qed (use old send_keeps [OF laws] in \<open>auto simp: status_true_def\<close>)
  qed
  have late: "\<exists>c. sy_origin s (pl_event_id q) = Some c \<and> q = payload_of c" if "late q cl" for q
    using only_late [OF call that] inv origin by (auto simp: books_inv_def)
  have "\<forall>k. sy_origin s k \<noteq> None \<longrightarrow> get_event k (sy_db s) \<noteq> None" using inv by (simp add: books_inv_def)
  with has status late fs wk send_inv [OF laws] show ?thesis by (simp add: books_inv_def)
qed

end

context transaction_provider
begin

lemma books_inv_handler_call:
  assumes "books_inv recorded barred has late pinv s" and "sys_inv P ok s" and "\<And>c. ok c \<Longrightarrow> good (payload_of c)"
    and fl: "sy_flights s = xs @ \<lparr>fl_env = e, fl_cmd = c, fl_stage = Sending pr\<rparr> # ys"
    and call: "send (trace e) (payload_of c) pr (sy_client s) = (out, cl)"
  shows "books_inv recorded barred has late pinv (s\<lparr>sy_client := cl,
    sy_flights := xs @ \<lparr>fl_env = e, fl_cmd = c, fl_stage = turned out\<rparr> # ys\<rparr>)"
proof -
  from active_event [OF assms(2) fl] obtain ev where ev: "get_event (ec_event_id c) (sy_db s) = Some ev"
    "ev_status ev = PENDING" "sy_origin s (ec_event_id c) = Some c" "ok c"
    "\<forall>f' \<in> set (xs @ ys). active f' \<longrightarrow> flight_id f' \<noteq> ec_event_id c"
    "get_delivery (ec_event_id c) (sy_db s) = None" by auto
  have pinv: "pinv (sy_client s)" and stages: "\<forall>f \<in> set (xs @ ys). stage_true recorded barred has f (sy_client s)"
    and wk: "worker_true recorded barred has (sy_worker s) (sy_client s)"
    using assms(1) fl by (auto simp: books_inv_def)
  have "has (ec_event_id c) (sy_client s) \<Longrightarrow> recorded (payload_of c) (sy_client s)"
    using assms(1) ev(3) unfolding books_inv_def by force
  note known = this
  note laws = pinv assms(3) [OF ev(4)] call
  have own: "case out of Inl res \<Rightarrow> answer_true recorded barred has res (payload_of c) cl | Inr _ \<Rightarrow> True"
    using answer_true_own [OF laws] known by simp
  have "books_inv recorded barred has late pinv (s\<lparr>sy_client := cl,
    sy_flights := xs @ \<lparr>fl_env = e, fl_cmd = c, fl_stage = turned out\<rparr> # ys, sy_worker := sy_worker s\<rparr>)"
  proof (rule books_inv_call [OF assms(1,2) ev(3) assms(3) [OF ev(4)] call ev(1)])
    show "\<not> terminal (ev_status ev)" using ev(2) by (simp add: terminal_def)
    show "stage_true recorded barred has f cl"
      if "f \<in> set (xs @ \<lparr>fl_env = e, fl_cmd = c, fl_stage = turned out\<rparr> # ys)" for f
      using that turned_true(1) [OF own] stages stage_true_kept [OF laws] ev(5) by auto
    show "worker_true recorded barred has (sy_worker s) cl"
    proof (cases "sy_worker s")
      case (Delivered d evd res')
      with assms(2) have "get_delivery (pd_event_id d) (sy_db s) = Some d" by (simp add: sys_inv_def)
      moreover have "queue_inv (sy_db s) (sy_origin s)" using assms(2) by (simp add: sys_inv_def)
      moreover have "worker_inv (sy_db s) (sy_worker s)" using assms(2) by (simp add: sys_inv_def)
      ultimately have "pl_event_id (pd_payload d) = pd_event_id d" "pd_event_id d \<noteq> ec_event_id c"
        using worker_payload_id [OF assms(2), of d] Delivered ev(6) by auto
      with wk Delivered answer_true_kept [OF laws, of res' "pd_payload d"] show ?thesis
        by (simp add: worker_true_def)
    qed (simp_all add: worker_true_def)
  qed
  then show ?thesis by simp
qed

lemma books_inv_worker_call:
  assumes "books_inv recorded barred has late pinv s" and "sys_inv P ok s" and "\<And>c. ok c \<Longrightarrow> good (payload_of c)"
    and wk: "sy_worker s = Delivering d ev tid pr"
    and call: "send tid (pd_payload d) pr (sy_client s) = (out, cl)"
  shows "books_inv recorded barred has late pinv (s\<lparr>sy_client := cl, sy_worker := turned_worker d ev tid out\<rparr>)"
proof -
  obtain c where c: "sy_origin s (pd_event_id d) = Some c" "pd_payload d = payload_of c" "ok c"
    "ec_event_id c = pd_event_id d" "get_event (pd_event_id d) (sy_db s) = Some ev" "ev_status ev = QUEUED"
    using worker_event [OF assms(2), where d = d and ev = ev] wk by blast
  have pinv: "pinv (sy_client s)" using assms(1) by (simp add: books_inv_def)
  have call': "send tid (payload_of c) pr (sy_client s) = (out, cl)" using call c(2) by simp
  note laws = pinv assms(3) [OF c(3)] call'
  have "has (ec_event_id c) (sy_client s) \<Longrightarrow> recorded (payload_of c) (sy_client s)"
    using assms(1) c(1,4) unfolding books_inv_def by force
  then have own: "case out of Inl res \<Rightarrow> answer_true recorded barred has res (pd_payload d) cl | Inr _ \<Rightarrow> True"
    using answer_true_own [OF laws] unfolding c(2) by simp
  have "books_inv recorded barred has late pinv (s\<lparr>sy_client := cl, sy_flights := sy_flights s, sy_worker := turned_worker d ev tid out\<rparr>)"
  proof (rule books_inv_call [OF assms(1,2) _ assms(3) [OF c(3)] call'])
    show "sy_origin s (ec_event_id c) = Some c" "get_event (ec_event_id c) (sy_db s) = Some ev" using c by simp_all
    show "\<not> terminal (ev_status ev)" using c(6) by (simp add: terminal_def)
    show "stage_true recorded barred has f cl" if f: "f \<in> set (sy_flights s)" for f
    proof (rule stage_true_kept [OF laws])
      show "stage_true recorded barred has f (sy_client s)" using assms(1) f by (simp add: books_inv_def)
      show "flight_id f \<noteq> pl_event_id (payload_of c)" if "active f"
      proof -
        have "map_option ev_status (get_event (flight_id f) (sy_db s)) = Some PENDING"
          using assms(2) f that by (simp add: sys_inv_def flights_inv_def)
        with c show ?thesis by auto
      qed
    qed
    show "worker_true recorded barred has (turned_worker d ev tid out) cl" by (rule turned_true(2) [OF own])
  qed
  then show ?thesis by simp
qed

end

section \<open>Every step keeps the books and the records in agreement\<close>

context transaction_provider
begin

lemma books_inv_finish:
  assumes inv: "books_inv recorded barred has late pinv s" and sys: "sys_inv P ok s" and "st_fallback_enabled st"
    and fl: "sy_flights s = xs @ \<lparr>fl_env = e, fl_cmd = c, fl_stage = Answered res\<rparr> # ys"
    and ac: "after_call P st e c res (sy_db s) = (out, db')"
  shows "books_inv recorded barred has late pinv (s\<lparr>sy_db := db', sy_flights := xs @ ys\<rparr>)"
proof -
  from active_event [OF sys fl] obtain ev where ev: "get_event (ec_event_id c) (sy_db s) = Some ev"
    "ev_status ev = PENDING" "sy_origin s (ec_event_id c) = Some c" by auto
  have said: "answer_true recorded barred has res (payload_of c) (sy_client s)"
    using inv fl by (auto simp: books_inv_def)
  let ?ev = "touched P e res (final_status st res) ev"
  have true: "status_true recorded barred has (ev_status ?ev) c (sy_client s)"
    using said ev(2) assms(3)
    by (auto simp: status_true_def touched_def final_status_def answer_true_def split: call_result.splits)
  have "books_inv recorded barred has late pinv (s\<lparr>sy_db := db', sy_flights := xs @ ys, sy_worker := sy_worker s\<rparr>)"
    using after_call_spec [OF ac ev(1)] true ev(3) fl
    by (intro books_inv_outcome [OF inv, where k = "ec_event_id c" and ev' = ?ev]) auto
  then show ?thesis by simp
qed

lemma books_inv_worker_done:
  assumes inv: "books_inv recorded barred has late pinv s" and sys: "sys_inv P ok s"
    and wk: "sy_worker s = Delivered d ev res"
    and ad: "after_delivery P st e j d ev res (sy_db s) = (out, db')"
  shows "books_inv recorded barred has late pinv (s\<lparr>sy_db := db', sy_worker := Idle\<rparr>)"
proof -
  let ?k = "pd_event_id d"
  obtain c where c: "sy_origin s ?k = Some c" "pd_payload d = payload_of c" "ec_event_id c = ?k"
    "get_event ?k (sy_db s) = Some ev" "ev_status ev = QUEUED" "get_delivery ?k (sy_db s) = Some d"
    using worker_event [OF sys, where d = d and ev = ev and res = res] wk by auto
  have said: "answer_true recorded barred has res (payload_of c) (sy_client s)"
    using inv wk c(2) by (simp add: books_inv_def worker_true_def)
  note spec = after_delivery_spec [OF ad get_event_Some_id [OF c(4)] refl]
  have idle: "worker_true recorded barred has Idle (sy_client s)" by (simp add: worker_true_def)
  have "books_inv recorded barred has late pinv (s\<lparr>sy_db := db', sy_flights := sy_flights s, sy_worker := Idle\<rparr>)"
  proof (cases res)
    case (Got r)
    define t where "t = (if 400 \<le> rs_status r then FAILED else APPLIED)"
    from spec Got c(4) obtain a where db': "db' = settle P t (now e) ?k a (sy_db s)" by (auto simp: t_def)
    have "status_true recorded barred has t c (sy_client s)"
      using said Got by (auto simp: status_true_def answer_true_def t_def c(3))
    with c(1,4) idle show ?thesis
      by (intro books_inv_outcome [OF inv, where k = ?k and ev' = "set_status P t (now e) ev"]) (auto simp: db')
  next
    case (Unavailable m)
    with spec c(6) obtain n err nx t a where "db' = postpone P n err nx t ?k a (sy_db s)" by auto
    with idle show ?thesis by (intro books_inv_same [OF inv]) auto
  next
    case (Crashed m)
    with spec idle show ?thesis by (intro books_inv_same [OF inv]) auto
  qed
  then show ?thesis by simp
qed

lemma books_inv_insert:
  assumes inv: "books_inv recorded barred has late pinv s" and sys: "sys_inv P ok s"
    and fl: "sy_flights s = xs @ \<lparr>fl_env = e, fl_cmd = c, fl_stage = LookedUp db\<rparr> # ys"
    and start: "submit_start P e (\<lambda>_. sy_db s) c db = (None, db')"
  shows "books_inv recorded barred has late pinv (s\<lparr>sy_db := db',
    sy_flights := xs @ \<lparr>fl_env = e, fl_cmd = c, fl_stage = Sending NotBegun\<rparr> # ys, sy_origin := (sy_origin s)(ec_event_id c \<mapsto> c)\<rparr>)"
proof -
  let ?k = "ec_event_id c"
  from submit_start_inserts [OF start]
  have fresh: "get_event ?k (sy_db s) = None"
    and ev: "\<And>k. get_event k db' = (if k = ?k then Some (stored_event P (new_event e c)) else get_event k (sy_db s))"
    by auto
  from inv fresh have none: "sy_origin s ?k = None" unfolding books_inv_def by blast
  with inv have "\<not> has ?k (sy_client s)" unfolding books_inv_def by fastforce
  with inv none ev fl show ?thesis
    unfolding books_inv_def by (auto simp: status_true_def new_event_def)
qed

lemma books_inv_stored_only:
  assumes inv: "books_inv recorded barred has late pinv s" and sys: "sys_inv P ok s"
    and fl: "sy_flights s = xs @ \<lparr>fl_env = e, fl_cmd = c, fl_stage = LookedUp db\<rparr> # ys"
    and ins: "gw_commit P [InsEvent (new_event e c)] (sy_db s) = (None, db')"
  shows "books_inv recorded barred has late pinv
    (s\<lparr>sy_db := db', sy_flights := xs @ ys, sy_origin := (sy_origin s)(ec_event_id c \<mapsto> c)\<rparr>)"
proof -
  have "get_event (ec_event_id c) db = None" using sys fl by (auto simp: sys_inv_def flights_inv_def)
  then obtain db2 where db2: "submit_start P e (\<lambda>_. sy_db s) c db = (None, db2)" "same_tables db2 db'"
    using ins by (rule stored_only_tables)
  from books_inv_same [OF books_inv_insert [OF inv sys fl db2(1)], of db' "xs @ ys" "sy_worker s"] same_tablesD [OF db2(2)]
  have "books_inv recorded barred has late pinv
      (s\<lparr>sy_origin := (sy_origin s)(ec_event_id c \<mapsto> c), sy_db := db', sy_flights := xs @ ys\<rparr>)" by auto
  then show ?thesis by (simp add: books_inv_def)
qed

lemma books_inv_saved_only:
  assumes inv: "books_inv recorded barred has late pinv s" and sys: "sys_inv P ok s" and "st_fallback_enabled st"
    and fl: "sy_flights s = xs @ \<lparr>fl_env = e, fl_cmd = c, fl_stage = Answered res\<rparr> # ys"
    and "saved_status st res = Some t" and "gw_commit P [UpdEvent (ec_event_id c) t (now e)] (sy_db s) = (None, db')"
  shows "books_inv recorded barred has late pinv (s\<lparr>sy_db := db', sy_flights := xs @ ys\<rparr>)"
proof -
  obtain out db2 where db2: "after_call P st e c res (sy_db s) = (out, db2)" "same_tables db2 db'"
    using assms(5,6) by (rule saved_only_tables)
  from books_inv_same [OF books_inv_finish [OF inv sys assms(3) fl db2(1)], of db' "xs @ ys" "sy_worker s"]
    same_tablesD [OF db2(2)] show ?thesis by simp
qed

text \<open>A late message arrives: it is the payload of a stored event, so it changes the books for that event only.\<close>

lemma books_inv_drift:
  assumes inv: "books_inv recorded barred has late pinv s" and sys: "sys_inv P ok s"
    and good: "\<And>c. ok c \<Longrightarrow> good (payload_of c)" and drift: "drift (sy_client s) cl"
  shows "books_inv recorded barred has late pinv (s\<lparr>sy_client := cl\<rparr>)"
proof -
  let ?cl = "sy_client s"
  have pinv: "pinv ?cl" and stored: "\<forall>k. sy_origin s k \<noteq> None \<longrightarrow> get_event k (sy_db s) \<noteq> None"
    and late: "\<And>q. late q ?cl \<Longrightarrow> \<exists>c. sy_origin s (pl_event_id q) = Some c \<and> q = payload_of c"
    and booked: "\<forall>k. has k ?cl \<longrightarrow> (\<exists>c. sy_origin s k = Some c \<and> recorded (payload_of c) ?cl)"
    using inv by (simp_all add: books_inv_def)
  have known: "ok c \<and> ec_event_id c = k" if "sy_origin s k = Some c" for k c
  proof -
    from stored that obtain ev where ev: "get_event k (sy_db s) = Some ev" by fastforce
    have "events_inv P ok (sy_db s) (sy_origin s)" using sys by (simp add: sys_inv_def)
    then have "case get_event k (sy_db s) of None \<Rightarrow> True
        | Some ev \<Rightarrow> \<exists>c. sy_origin s k = Some c \<and> ec_event_id c = k \<and> ok c \<and> stored_row P c ev"
      unfolding events_inv_def by blast
    with ev that show ?thesis by auto
  qed
  have "good q" if "late q ?cl" for q using late [OF that] known good by blast
  note laws = pinv this drift
  have own: "\<exists>c. sy_origin s k = Some c \<and> recorded (payload_of c) cl \<and> \<not> barred (payload_of c) ?cl"
    if "has k cl" "\<not> has k ?cl" for k
    using drift_own [OF laws that] late by fastforce
  have out: "\<not> has (ec_event_id c) cl \<and> barred (payload_of c) cl"
    if "sy_origin s (ec_event_id c) = Some c" "\<not> has (ec_event_id c) ?cl" "barred (payload_of c) ?cl" for c
    using own [of "ec_event_id c"] drift_bars [OF laws] that by auto
  have answer: "answer_true recorded barred has res (payload_of c) cl"
    if "answer_true recorded barred has res (payload_of c) ?cl" "sy_origin s (ec_event_id c) = Some c" for res c
    using that out drift_keeps [OF laws] by (auto simp: answer_true_def split: call_result.splits if_splits)
  have "\<exists>c. sy_origin s k = Some c \<and> recorded (payload_of c) cl" if "has k cl" for k
    using that own booked drift_keeps [OF laws] by blast
  moreover have "status_true recorded barred has (ev_status ev) c cl"
    if "get_event k (sy_db s) = Some ev" "sy_origin s k = Some c" for k ev c
  proof -
    from inv that have "status_true recorded barred has (ev_status ev) c ?cl" unfolding books_inv_def by blast
    with out [of c] known [OF that(2)] that(2) drift_keeps [OF laws] show ?thesis
      by (cases "ev_status ev") (auto simp: status_true_def)
  qed
  moreover have "stage_true recorded barred has f cl" if f: "f \<in> set (sy_flights s)" for f
  proof (cases "active f")
    case False
    then show ?thesis by (rule inactive_true)
  next
    case True
    with sys f have "sy_origin s (flight_id f) = Some (fl_cmd f)" by (simp add: sys_inv_def flights_inv_def)
    moreover from inv f have "stage_true recorded barred has f ?cl" by (simp add: books_inv_def)
    ultimately show ?thesis
      using answer by (auto simp: stage_true_def flight_id_def split: stage.splits)
  qed
  moreover have "worker_true recorded barred has (sy_worker s) cl"
  proof (cases "sy_worker s")
    case (Delivered d ev res)
    with worker_event [OF sys, where d = d and ev = ev and res = res] obtain c where
      "sy_origin s (ec_event_id c) = Some c" "pd_payload d = payload_of c" by metis
    with answer [of res c] inv Delivered show ?thesis by (simp add: books_inv_def worker_true_def)
  qed (simp_all add: worker_true_def)
  moreover have "\<exists>c. sy_origin s (pl_event_id q) = Some c \<and> q = payload_of c" if "late q cl" for q
    using late [OF drift_late [OF drift that]] .
  ultimately show ?thesis using stored drift_inv [OF laws] by (simp add: books_inv_def)
qed

lemma books_inv_step:
  assumes "step P st send drift ok s s'" and sys: "sys_inv P ok s" and inv: "books_inv recorded barred has late pinv s"
    and "st_fallback_enabled st" and good: "\<And>c. ok c \<Longrightarrow> good (payload_of c)"
  shows "books_inv recorded barred has late pinv s'"
  using assms(1)
proof (cases rule: step.cases)
  case (known c ev e out db')
  with submit_start_same [OF known(3)] have "get_event k db' = get_event k (sy_db s)" for k
    by (simp add: same_tablesD)
  with known(1) books_inv_same [OF inv, of db' "sy_flights s" "sy_worker s"] show ?thesis by simp
next
  case (look_up c e)
  with inv show ?thesis by (auto simp: books_inv_def)
next
  case (insert xs e c db ys db')
  with books_inv_insert [OF inv sys] show ?thesis by simp
next
  case (lost_race xs e c db ys out db')
  from sys lost_race(2) have "get_event (ec_event_id c) db = None"
    by (auto simp: sys_inv_def flights_inv_def)
  with submit_start_same [OF lost_race(3)] have "get_event k db' = get_event k (sy_db s)" for k
    by (simp add: same_tablesD)
  moreover from lost_race(2) have "set (xs @ ys) \<subseteq> set (sy_flights s)" by auto
  ultimately show ?thesis
    using lost_race(1) books_inv_same [OF inv, of db' "xs @ ys" "sy_worker s"] by simp
next
  case (call xs e c pr ys out cl)
  with books_inv_handler_call [OF inv sys good] show ?thesis by simp
next
  case (finish xs e c res ys out db')
  with books_inv_finish [OF inv sys assms(4)] show ?thesis by simp
next
  case (stored_only xs e c db ys db')
  with books_inv_stored_only [OF inv sys] show ?thesis by simp
next
  case (saved_only xs e c res ys t db')
  with books_inv_saved_only [OF inv sys assms(4)] show ?thesis by simp
next
  case (cut_off xs f ys)
  from cut_off(2) have "set (xs @ ys) \<subseteq> set (sy_flights s)" by auto
  with cut_off(1) books_inv_same [OF inv, of "sy_db s" "xs @ ys" "sy_worker s"] show ?thesis by simp
next
  case (pick k d ev fresh)
  with books_inv_same [OF inv, of "sy_db s" "sy_flights s"
      "Delivering d ev (normalize_trace_id fresh (Some (pd_trace d))) NotBegun"] show ?thesis
    by (simp add: worker_true_def)
next
  case (orphan k d out db')
  have "queue_inv (sy_db s) (sy_origin s)" using sys by (simp add: sys_inv_def)
  from queue_inv_none [OF this, of k] orphan show ?thesis by simp
next
  case (deliver d ev tid pr out cl)
  with books_inv_worker_call [OF inv sys good] show ?thesis by simp
next
  case (worker_done d ev res e j out db')
  with books_inv_worker_done [OF inv sys] show ?thesis by simp
next
  case worker_cut_off
  with books_inv_same [OF inv, of "sy_db s" "sy_flights s" Idle] show ?thesis by (simp add: worker_true_def)
next
  case (elsewhere cl)
  with books_inv_drift [OF inv sys good] show ?thesis by simp
qed

text \<open>The agreement in every reachable state, from books that hold no transaction yet.\<close>

lemma reachable_books:
  assumes "reachable P st send drift ok cl s" and "st_fallback_enabled st" and "\<And>c. ok c \<Longrightarrow> good (payload_of c)"
    and "pinv cl" and "\<And>k. \<not> has k cl" and "\<And>q. \<not> late q cl"
  shows "books_inv recorded barred has late pinv s"
proof -
  from assms(1) have "books_inv recorded barred has late pinv s \<and> sys_inv P ok s"
    unfolding reachable_def
  proof (induction rule: rtranclp_induct)
    case base
    from assms(4-6) show ?case
      by (simp add: sys_inv_initial) (simp add: books_inv_def initial_def get_event_def empty_gw_db_def worker_true_def)
  next
    case (step s1 s2)
    then show ?case using books_inv_step [OF step(2)] sys_inv_step [OF step(2)] assms(2,3) by blast
  qed
  then show ?thesis by simp
qed

lemma agreement:
  assumes "reachable P st send drift ok cl s" and "st_fallback_enabled st" and "\<And>c. ok c \<Longrightarrow> good (payload_of c)"
    and "pinv cl" and "\<And>k. \<not> has k cl" and "\<And>q. \<not> late q cl"
  shows "(\<forall>k ev. get_event k (sy_db s) = Some ev \<longrightarrow> (\<exists>c. sy_origin s k = Some c \<and> ok c \<and> ec_event_id c = k \<and> stored_row P c ev
        \<and> (ev_status ev = APPLIED \<longrightarrow> recorded (payload_of c) (sy_client s))
        \<and> (ev_status ev = FAILED \<longrightarrow> \<not> has k (sy_client s))))
    \<and> (\<forall>k. has k (sy_client s) \<longrightarrow> (\<exists>ev c. get_event k (sy_db s) = Some ev \<and> sy_origin s k = Some c
        \<and> ok c \<and> ec_event_id c = k \<and> stored_row P c ev \<and> recorded (payload_of c) (sy_client s)))"
proof -
  note books = reachable_books [OF assms]
  have sys: "sys_inv P ok s" using reachable_inv [OF assms(1)] .
  have row: "\<exists>c. sy_origin s k = Some c \<and> ok c \<and> ec_event_id c = k \<and> stored_row P c ev"
    if "get_event k (sy_db s) = Some ev" for k ev
  proof -
    have "events_inv P ok (sy_db s) (sy_origin s)" using sys by (simp add: sys_inv_def)
    then have "case get_event k (sy_db s) of None \<Rightarrow> True
        | Some ev \<Rightarrow> \<exists>c. sy_origin s k = Some c \<and> ec_event_id c = k \<and> ok c \<and> stored_row P c ev"
      unfolding events_inv_def by blast
    with that show ?thesis by auto
  qed
  have status: "status_true recorded barred has (ev_status ev) c (sy_client s)"
    if "get_event k (sy_db s) = Some ev" "sy_origin s k = Some c" for k ev c
    using books that unfolding books_inv_def by blast
  have event: "\<exists>ev c. get_event k (sy_db s) = Some ev \<and> sy_origin s k = Some c \<and> ok c
      \<and> ec_event_id c = k \<and> stored_row P c ev
      \<and> recorded (payload_of c) (sy_client s)" if "has k (sy_client s)" for k
  proof -
    from books that obtain c where c: "sy_origin s k = Some c" "recorded (payload_of c) (sy_client s)"
      unfolding books_inv_def by blast
    with books obtain ev where "get_event k (sy_db s) = Some ev" unfolding books_inv_def by fastforce
    with row [OF this] c show ?thesis by auto
  qed
  show ?thesis
    using row status event by (fastforce simp: status_true_def)
qed

end

end
