(* ===== verification/EndToEnd.thy ===== *)
theory EndToEnd
  imports Reconciliation AccountLedger
begin

text \<open>
  The two services together: the gateway's client (\<open>Client\<close>) over an unreliable network to the account
  service (\<open>AccountService\<close>). The network is a list of fates, one for each message the client sends. A
  message may be lost, or be delayed: the client gives it up, and it is handled at any later time or never.
  An intermediary answers only with 502, 503 or 504. The routing of the web framework and the JSON rendering of answers
  are parameters (\<open>site\<close>).
\<close>

section \<open>The account service behind its routes\<close>

datatype endpoint = Transactions string | Balance string | NotFound

record site =
  si_platform :: platform
  si_route :: "string \<Rightarrow> string \<Rightarrow> endpoint"
  si_render :: "tx_result \<Rightarrow> json"
  si_render_balance :: "balance_response \<Rightarrow> json"
  si_clock :: "nat \<Rightarrow> datetime"
  si_fresh :: "nat \<Rightarrow> string"

text \<open>
  One request, handled alone: routing, validation of the body, the route, and the exception handlers.
  The trace id is the request's own, normalised by the middleware.
\<close>

definition post_transaction :: "site \<Rightarrow> env \<Rightarrow> string \<Rightarrow> payload \<Rightarrow> acct_db \<Rightarrow> http_resp \<times> acct_db" where
  "post_transaction S e account_id p db =
     (case validate_transaction (si_platform S) (raw_of_payload p) of
        Inl errs \<Rightarrow> (handle_exception (si_platform S) (trace e) (request_error (si_platform S) errs), db)
      | Inr c \<Rightarrow> (case apply_transaction (si_platform S) e id account_id c db of
          (Inl err, db') \<Rightarrow> (handle_exception (si_platform S) (trace e) err, db')
        | (Inr rep, db') \<Rightarrow> (json_response (rp_status rep) (si_render S (rp_body rep)), db')))"

definition balance_page :: "site \<Rightarrow> env \<Rightarrow> string \<Rightarrow> acct_db \<Rightarrow> http_resp" where
  "balance_page S e account_id db = (case get_balance account_id db of
     Inl err \<Rightarrow> handle_exception (si_platform S) (trace e) err
   | Inr b \<Rightarrow> json_response 200 (si_render_balance S b))"

definition account_server :: "site \<Rightarrow> nat \<Rightarrow> request_line \<Rightarrow> acct_db \<Rightarrow> http_resp \<times> acct_db" where
  "account_server S n rq db =
     (let e = \<lparr>now = si_clock S n, trace = normalize_trace_id (si_fresh S n) (Some (rl_trace rq))\<rparr> in
      case (si_route S (rl_method rq) (rl_path rq), rl_json rq) of
        (Transactions acc, Some p) \<Rightarrow> post_transaction S e acc p db
      | (Transactions acc, None) \<Rightarrow> (validation_error (trace e) [([''body''], ''Field required'')], db)
      | (Balance acc, _) \<Rightarrow> (balance_page S e acc db, db)
      | (NotFound, _) \<Rightarrow> (json_response 404 (JObj [(''detail'', JStr ''Not Found'')]), db))"

section \<open>The network\<close>

datatype fate =
    Arrives
  | RequestLost string
  | Delayed string
  | AnswerLost string
  | Intermediary int
  | BreaksBefore string
  | BreaksAfter string

record world =
  wo_db :: acct_db
  wo_fates :: "fate list"
  wo_handled :: nat
  wo_late :: "request_line list"

definition response_of :: "site \<Rightarrow> http_resp \<Rightarrow> response" where
  "response_of S r = \<lparr>rs_status = status_code r, rs_is_json = True, rs_text = py_str (si_platform S) (body r),
     rs_json = Some (body r)\<rparr>"

definition serve_request :: "site \<Rightarrow> request_line \<Rightarrow> world \<Rightarrow> response \<times> world" where
  "serve_request S rq w = (let (r, db) = account_server S (wo_handled w) rq (wo_db w)
     in (response_of S r, w\<lparr>wo_db := db, wo_handled := Suc (wo_handled w)\<rparr>))"

definition intermediary :: "int \<Rightarrow> response" where
  "intermediary code = answer (if transient code then code else 503)"

text \<open>After the last fate nothing arrives any more.\<close>

definition transmit :: "site \<Rightarrow> request_line \<Rightarrow> world \<Rightarrow> attempt_outcome \<times> world" where
  "transmit S rq w0 = (case wo_fates w0 of
     [] \<Rightarrow> (TimeoutException ''timeout'', w0)
   | fate # fates \<Rightarrow>
       (let w = w0\<lparr>wo_fates := fates\<rparr>; (r, w') = serve_request S rq w in
        case fate of
          Arrives \<Rightarrow> (Response r, w')
        | RequestLost m \<Rightarrow> (ConnectError m, w)
        | Delayed m \<Rightarrow> (TimeoutException m, w\<lparr>wo_late := wo_late w @ [rq]\<rparr>)
        | AnswerLost m \<Rightarrow> (TimeoutException m, w')
        | Intermediary code \<Rightarrow> (Response (intermediary code), w)
        | BreaksBefore m \<Rightarrow> (OtherFailure m, w)
        | BreaksAfter m \<Rightarrow> (OtherFailure m, w')))"

text \<open>A delayed request arrives; nobody waits for its answer any more.\<close>

inductive arrives_late :: "site \<Rightarrow> world \<Rightarrow> world \<Rightarrow> bool" for S where
  "wo_late w = xs @ rq # ys \<Longrightarrow> serve_request S rq (w\<lparr>wo_late := xs @ ys\<rparr>) = (r, w') \<Longrightarrow> arrives_late S w w'"

section \<open>The gateway's caller\<close>

text \<open>
  The client object and the world behind it; the calls are numbered as they begin, and each reads its own
  clock and jitter.
\<close>

record downstream =
  dn_call :: "world call"
  dn_calls :: nat

definition downstream_call :: "settings \<Rightarrow> site \<Rightarrow> (nat \<Rightarrow> nat \<Rightarrow> rat) \<Rightarrow> (nat \<Rightarrow> nat \<Rightarrow> rat) \<Rightarrow> downstream caller" where
  "downstream_call st S clk jit tid p d =
     (let (res, c) = client_apply_transaction st (transmit S) (clk (dn_calls d)) (jit (dn_calls d)) tid p (dn_call d)
      in (res, \<lparr>dn_call = c, dn_calls = Suc (dn_calls d)\<rparr>))"

text \<open>
  The same call, one turn at a time, as the gateway system interleaves it with the calls of others: the
  breaker is asked first, then each turn is one attempt with its sleep.
\<close>

fun downstream_sender :: "settings \<Rightarrow> site \<Rightarrow> (nat \<Rightarrow> nat \<Rightarrow> rat) \<Rightarrow> (nat \<Rightarrow> nat \<Rightarrow> rat) \<Rightarrow> downstream sender" where
  "downstream_sender st S clk jit tid p NotBegun d =
     (let i = dn_calls d; d1 = d\<lparr>dn_calls := Suc i\<rparr> in
      if \<not> allow (clk i 0) (cl_breaker (dn_call d)) then (Inl (Unavailable ''account service circuit is open''), d1)
      else (Inr (Trying i (nat (st_max_attempts st)) 0 ''None''), d1))"
| "downstream_sender st S clk jit tid p (Trying i 0 k last_error) d = (Inl (Unavailable last_error), d)"
| "downstream_sender st S clk jit tid p (Trying i (Suc n) k last_error) d =
     (case attempt (transmit S) (clk i) (jit i)
         \<lparr>rl_method = ''POST'', rl_path = transaction_path (pl_account_id p), rl_trace = tid, rl_json = Some p\<rparr>
         n k (dn_call d) of
       (Inl res, c) \<Rightarrow> (Inl res, d\<lparr>dn_call := c\<rparr>)
     | (Inr m, c) \<Rightarrow> (Inr (Trying i n (Suc k) m), d\<lparr>dn_call := c\<rparr>))"

definition downstream_drift :: "site \<Rightarrow> downstream \<Rightarrow> downstream \<Rightarrow> bool" where
  "downstream_drift S d d' \<longleftrightarrow> (\<exists>w. arrives_late S (cl_net (dn_call d)) w
     \<and> d' = d\<lparr>dn_call := (dn_call d)\<lparr>cl_net := w\<rparr>\<rparr>)"

definition books :: "downstream \<Rightarrow> acct_db" where
  "books d = wo_db (cl_net (dn_call d))"

definition exact_columns :: "platform \<Rightarrow> bool" where
  "exact_columns P \<longleftrightarrow> (\<forall>x. num_col P x = x) \<and> (\<forall>t. ts_exact P t)"

definition post_line :: "string \<Rightarrow> payload \<Rightarrow> request_line" where
  "post_line tid p = \<lparr>rl_method = ''POST'', rl_path = transaction_path (pl_account_id p), rl_trace = tid,
     rl_json = Some p\<rparr>"

text \<open>The delayed requests are transactions the gateway sent, or have no body.\<close>

definition late_ok :: "world \<Rightarrow> bool" where
  "late_ok w \<longleftrightarrow> (\<forall>rq \<in> set (wo_late w). rl_json rq = None \<or> (\<exists>tid p. rq = post_line tid p))"

definition books_ok :: "site \<Rightarrow> downstream \<Rightarrow> bool" where
  "books_ok S d \<longleftrightarrow> exact_columns (si_platform S) \<and> acct_inv (books d) \<and> late_ok (cl_net (dn_call d))"

definition is_late :: "payload \<Rightarrow> downstream \<Rightarrow> bool" where
  "is_late p d \<longleftrightarrow> (\<exists>tid. post_line tid p \<in> set (wo_late (cl_net (dn_call d))))"

text \<open>An entry the books will never take: its account has an entry in another currency.\<close>

definition barred_by :: "entry \<Rightarrow> ledger \<Rightarrow> bool" where
  "barred_by en L \<longleftrightarrow> list_ex (\<lambda>(_, en'). en_account en' = en_account en \<and> en_currency en' \<noteq> en_currency en) L"

definition barred :: "site \<Rightarrow> payload \<Rightarrow> downstream \<Rightarrow> bool" where
  "barred S p d \<longleftrightarrow> (case validate_transaction (si_platform S) (raw_of_payload p) of
     Inl _ \<Rightarrow> False
   | Inr c \<Rightarrow> barred_by (entry_of c) (ledger_of (books d)))"

definition recorded :: "site \<Rightarrow> payload \<Rightarrow> downstream \<Rightarrow> bool" where
  "recorded S p d \<longleftrightarrow> (case validate_transaction (si_platform S) (raw_of_payload p) of
     Inl _ \<Rightarrow> False
   | Inr c \<Rightarrow> map_of (ledger_of (books d)) (pl_event_id p) = Some (entry_of c))"

definition has_transaction :: "string \<Rightarrow> downstream \<Rightarrow> bool" where
  "has_transaction k d \<longleftrightarrow> get_transaction k (books d) \<noteq> None"

definition deliverable :: "site \<Rightarrow> payload \<Rightarrow> bool" where
  "deliverable S p \<longleftrightarrow> si_route S ''POST'' (transaction_path (pl_account_id p)) = Transactions (pl_account_id p)
     \<and> \<not> isl (validate_transaction (si_platform S) (raw_of_payload p))"

section \<open>One message\<close>

lemma bounded_exact: "exact_columns P \<Longrightarrow> bounded_platform P c db"
  by (simp add: exact_columns_def bounded_platform_def num_exact_def)

text \<open>A ledger before and after messages for one entry: unchanged, or the entry appended.\<close>

definition advances :: "string \<Rightarrow> entry \<Rightarrow> ledger \<Rightarrow> ledger \<Rightarrow> bool" where
  "advances k en L L' \<longleftrightarrow> L' = L \<or> map_of L k = None \<and> \<not> barred_by en L \<and> L' = L @ [(k, en)]"

lemma advances_refl [simp]: "advances k en L L"
  by (simp add: advances_def)

lemma advances_trans: "advances k en L L' \<Longrightarrow> advances k en L' L'' \<Longrightarrow> advances k en L L''"
  by (auto simp: advances_def map_add_def)

lemma advances_map_of:
  assumes "advances k en L L'"
  shows "map_of L' j = (case map_of L j of Some x \<Rightarrow> Some x | None \<Rightarrow> if j = k \<and> L' \<noteq> L then Some en else None)"
  using assms by (auto simp: advances_def map_add_def split: option.splits)

lemma advances_barred: "advances k en L L' \<Longrightarrow> barred_by en' L \<Longrightarrow> barred_by en' L'"
  by (auto simp: advances_def barred_by_def)

text \<open>What a final answer says of the ledger it leaves.\<close>

definition tells :: "string \<Rightarrow> entry \<Rightarrow> int \<Rightarrow> ledger \<Rightarrow> bool" where
  "tells k en code L \<longleftrightarrow> (if code < 400 then map_of L k = Some en
     else map_of L k \<noteq> Some en \<and> (map_of L k = None \<longrightarrow> barred_by en L))"

text \<open>A request that runs alone, as a change of the ledger, and the status of its answer.\<close>

lemma ledger_apply_verdicts:
  assumes "ledger_apply (tc_account_id c) c L = (v, L')"
  shows "case v of
      Applied \<Rightarrow> map_of L (tc_event_id c) = None \<and> \<not> barred_by (entry_of c) L \<and> L' = L @ [(tc_event_id c, entry_of c)]
    | Replayed \<Rightarrow> map_of L (tc_event_id c) = Some (entry_of c) \<and> L' = L
    | Mismatch \<Rightarrow> False
    | Conflict \<Rightarrow> L' = L \<and> map_of L (tc_event_id c) \<notin> {None, Some (entry_of c)}
    | BadCurrency \<Rightarrow> L' = L \<and> map_of L (tc_event_id c) = None \<and> barred_by (entry_of c) L"
  using assms
  by (auto simp: ledger_apply_def barred_by_def entry_of_def split: option.splits if_splits)

lemma apply_transaction_status:
  assumes "exact_columns P" and "acct_inv db" and "0 < tc_amount c" and "acc = tc_account_id c"
    and "apply_transaction P e id acc c db = (out, db')"
  shows "acct_inv db' \<and> advances (tc_event_id c) (entry_of c) (ledger_of db) (ledger_of db')
    \<and> tells (tc_event_id c) (entry_of c)
        (case out of Inr rep \<Rightarrow> rp_status rep | Inl err \<Rightarrow> status_code (handle_exception P tid err)) (ledger_of db')"
proof -
  obtain out0 where ap: "apply_tx P e id acc c db = (out0, db')"
    using assms(5) by (cases "apply_tx P e id acc c db") (auto simp: apply_transaction_def split: sum.splits)
  have ref: "refines_ledger acc c db (out0, db')"
    using apply_tx_refines [of db c P id acc e] assms(1-3) bounded_exact ap by auto
  then have inv: "acct_inv db'" and la: "ledger_apply (tc_account_id c) c (ledger_of db) = (verdict_of out0, ledger_of db')"
    using assms(4) by (simp_all add: refines_ledger_def)
  note verdict = ledger_apply_verdicts [OF la]
  show ?thesis
  proof (cases out0)
    case (Inr rc)
    obtain r b where rc: "rc = (r, b)" by fastforce
    from assms(5) ap Inr rc have "\<exists>rep. out = Inr rep \<and> rp_status rep < 400"
      by (auto simp: apply_transaction_def)
    with verdict inv Inr rc show ?thesis
      by (cases b) (auto simp: advances_def tells_def map_add_def)
  next
    case (Inl err)
    from assms(5) ap Inl have out: "out = Inl err" by (simp add: apply_transaction_def)
    from la Inl have v: "verdict_of (Inl err :: exn + (tx_result \<times> bool)) \<in> {Conflict, BadCurrency}"
      by (auto simp: ledger_apply_def verdict_of_def split: option.splits if_splits)
    then have "err = currency_mismatch \<or> (\<exists>m. err = conflict m)"
      by (auto simp: verdict_of_def split: if_splits)
    then have "status_code (handle_exception P tid err) = 409"
      by (auto simp: currency_mismatch_def conflict_def http_exception_def http_error_def json_response_def)
    with out inv verdict Inl v show ?thesis by (auto simp: advances_def tells_def)
  qed
qed

lemma validate_transaction_Inr:
  assumes "validate_transaction P (raw_of_payload p) = Inr c"
  shows "tc_event_id c = pl_event_id p \<and> tc_account_id c = pl_account_id p \<and> 0 < tc_amount c"
  using assms validate_transaction_ok [OF assms]
  by (auto simp: validate_transaction_def raw_of_payload_def transaction_ok_def split: sum.splits)

lemma post_transaction_advances:
  assumes "exact_columns (si_platform S)" and "acct_inv db"
    and c: "validate_transaction (si_platform S) (raw_of_payload p) = Inr c"
    and "post_transaction S e (pl_account_id p) p db = (r, db')"
  shows "acct_inv db' \<and> advances (pl_event_id p) (entry_of c) (ledger_of db) (ledger_of db')
    \<and> tells (pl_event_id p) (entry_of c) (status_code r) (ledger_of db')"
proof -
  note ids = validate_transaction_Inr [OF c]
  obtain out db1 where ap: "apply_transaction (si_platform S) e id (pl_account_id p) c db = (out, db1)" by fastforce
  from assms(4) c ap have "db' = db1" "status_code r =
    (case out of Inr rep \<Rightarrow> rp_status rep | Inl err \<Rightarrow> status_code (handle_exception (si_platform S) (trace e) err))"
    by (auto simp: post_transaction_def json_response_def split: sum.splits)
  with apply_transaction_status [OF assms(1,2) _ _ ap, of "trace e"] ids show ?thesis by simp
qed

lemma post_line_sel [simp]:
  "rl_method (post_line tid p) = ''POST''" "rl_path (post_line tid p) = transaction_path (pl_account_id p)"
  "rl_json (post_line tid p) = Some p"
  by (simp_all add: post_line_def)

text \<open>One request that is handled.\<close>

lemma serve_post_advances:
  assumes "exact_columns (si_platform S)" and "acct_inv (wo_db w)" and "deliverable S p"
    and c: "validate_transaction (si_platform S) (raw_of_payload p) = Inr c"
    and sr: "serve_request S (post_line tid p) w = (r, w')"
  shows "acct_inv (wo_db w') \<and> advances (pl_event_id p) (entry_of c) (ledger_of (wo_db w)) (ledger_of (wo_db w'))
    \<and> tells (pl_event_id p) (entry_of c) (rs_status r) (ledger_of (wo_db w'))"
proof -
  have "si_route S ''POST'' (transaction_path (pl_account_id p)) = Transactions (pl_account_id p)"
    using assms(3) by (simp add: deliverable_def)
  with sr obtain e h where
    pt: "post_transaction S e (pl_account_id p) p (wo_db w) = (h, wo_db w')" "rs_status r = status_code h"
    by (auto simp: serve_request_def account_server_def Let_def response_of_def split: prod.splits)
  from post_transaction_advances [OF assms(1,2) c pt(1)] pt(2) show ?thesis by simp
qed

lemma serve_bodyless:
  assumes "rl_json rq = None" and "serve_request S rq w = (r, w')"
  shows "wo_db w' = wo_db w"
  using assms by (auto simp: serve_request_def account_server_def Let_def split: endpoint.splits prod.splits)

lemma serve_late [simp]: "serve_request S rq w = (r, w') \<Longrightarrow> wo_late w' = wo_late w"
  by (auto simp: serve_request_def Let_def split: prod.splits)

text \<open>The only message a transmission can leave under way is its own.\<close>

lemma transmit_late:
  assumes "transmit S rq w = (out, w')"
  shows "set (wo_late w') \<subseteq> insert rq (set (wo_late w))"
  using assms
  by (auto simp: transmit_def Let_def split: list.splits fate.splits prod.splits)

text \<open>One attempt, whatever its fate.\<close>

lemma transmit_advances:
  assumes "exact_columns (si_platform S)" and inv: "acct_inv (wo_db w)" and "deliverable S p"
    and c: "validate_transaction (si_platform S) (raw_of_payload p) = Inr c"
    and tr: "transmit S (post_line tid p) w = (out, w')"
  shows "acct_inv (wo_db w') \<and> advances (pl_event_id p) (entry_of c) (ledger_of (wo_db w)) (ledger_of (wo_db w'))
    \<and> (\<forall>r. classify out = Done (Got r) \<longrightarrow> tells (pl_event_id p) (entry_of c) (rs_status r) (ledger_of (wo_db w')))"
proof (cases "wo_fates w")
  case Nil
  with tr inv show ?thesis by (auto simp: transmit_def)
next
  case (Cons fate fates)
  let ?w = "w\<lparr>wo_fates := fates\<rparr>"
  obtain r w1 where sr: "serve_request S (post_line tid p) ?w = (r, w1)" by fastforce
  have "wo_db ?w = wo_db w" by simp
  with serve_post_advances [OF assms(1) _ assms(3) c sr] inv have post: "acct_inv (wo_db w1)"
    "advances (pl_event_id p) (entry_of c) (ledger_of (wo_db w)) (ledger_of (wo_db w1))"
    "tells (pl_event_id p) (entry_of c) (rs_status r) (ledger_of (wo_db w1))" by simp_all
  show ?thesis
  proof (cases fate)
    case Arrives
    with tr Cons sr have "out = Response r" "w' = w1" by (auto simp: transmit_def)
    with post show ?thesis by auto
  next
    case (RequestLost m)
    with tr Cons sr inv show ?thesis by (auto simp: transmit_def)
  next
    case (Delayed m)
    with tr Cons sr inv show ?thesis by (auto simp: transmit_def)
  next
    case (AnswerLost m)
    with tr Cons sr have "out = TimeoutException m" "w' = w1" by (auto simp: transmit_def)
    with post show ?thesis by simp
  next
    case (Intermediary code)
    with tr Cons sr have "out = Response (intermediary code)" "w' = ?w" by (auto simp: transmit_def)
    moreover have "transient (rs_status (intermediary code))"
      by (simp add: intermediary_def answer_def transient_def)
    ultimately show ?thesis using inv by simp
  next
    case (BreaksBefore m)
    with tr Cons sr inv show ?thesis by (auto simp: transmit_def)
  next
    case (BreaksAfter m)
    with tr Cons sr have "out = OtherFailure m" "w' = w1" by (auto simp: transmit_def)
    with post show ?thesis by simp
  qed
qed

text \<open>One turn of a call.\<close>

lemma attempt_advances:
  assumes "exact_columns (si_platform S)" and "acct_inv (wo_db (cl_net cl))" and "deliverable S p"
    and c: "validate_transaction (si_platform S) (raw_of_payload p) = Inr c"
    and at: "attempt (transmit S) clk jit (post_line tid p) n k cl = (out, cl')"
  shows "acct_inv (wo_db (cl_net cl'))
    \<and> advances (pl_event_id p) (entry_of c) (ledger_of (wo_db (cl_net cl))) (ledger_of (wo_db (cl_net cl')))
    \<and> (\<forall>r. out = Inl (Got r) \<longrightarrow> tells (pl_event_id p) (entry_of c) (rs_status r) (ledger_of (wo_db (cl_net cl'))))"
proof -
  obtain got w' where tr: "transmit S (post_line tid p) (cl_net cl) = (got, w')" by fastforce
  note one = transmit_advances [OF assms(1,2,3) c tr]
  from at have net: "cl_net cl' = w'" and out: "\<forall>r. out = Inl (Got r) \<longrightarrow> settled got = Got r"
    unfolding attempt_step [where send = "transmit S" and rq = "post_line tid p" and c = cl, OF tr]
    by (auto simp: Let_def split: if_splits)
  have "classify got = Done (Got r)" if "settled got = Got r" for r
    using that by (auto simp: settled_def split: verdict_of_attempt.splits)
  with one net out show ?thesis by auto
qed

lemma attempt_late:
  assumes "attempt (transmit S) clk jit rq n k cl = (out, cl')"
  shows "set (wo_late (cl_net cl')) \<subseteq> insert rq (set (wo_late (cl_net cl)))"
proof -
  obtain got w' where tr: "transmit S rq (cl_net cl) = (got, w')" by fastforce
  from assms have "cl_net cl' = w'"
    unfolding attempt_step [where send = "transmit S" and c = cl, OF tr] by (auto simp: Let_def split: if_splits)
  with transmit_late [OF tr] show ?thesis by simp
qed

lemma downstream_sender_late:
  assumes "downstream_sender st S clk jit tid p pr d = (out, d')"
  shows "set (wo_late (cl_net (dn_call d'))) \<subseteq> insert (post_line tid p) (set (wo_late (cl_net (dn_call d))))"
proof (cases "(st, S, clk, jit, tid, p, pr, d)" rule: downstream_sender.cases)
  case (3 st' S' clk' jit' tid' p' i n k m d0)
  obtain o1 cl where at: "attempt (transmit S) (clk i) (jit i) (post_line tid p) n k (dn_call d) = (o1, cl)" by fastforce
  with 3 assms have "d' = d\<lparr>dn_call := cl\<rparr>" by (auto simp: post_line_def split: sum.splits)
  with attempt_late [OF at] show ?thesis by simp
qed (use assms in \<open>auto simp: Let_def split: if_splits\<close>)

lemma downstream_sender_advances:
  assumes "books_ok S d" and "deliverable S p"
    and c: "validate_transaction (si_platform S) (raw_of_payload p) = Inr c"
    and turn: "downstream_sender st S clk jit tid p pr d = (out, d')"
  shows "books_ok S d' \<and> advances (pl_event_id p) (entry_of c) (ledger_of (books d)) (ledger_of (books d'))
    \<and> (\<forall>r. out = Inl (Got r) \<longrightarrow> tells (pl_event_id p) (entry_of c) (rs_status r) (ledger_of (books d')))"
proof -
  have ok: "exact_columns (si_platform S)" "acct_inv (books d)" and late: "late_ok (cl_net (dn_call d))"
    using assms(1) by (simp_all add: books_ok_def)
  have "acct_inv (books d') \<and> advances (pl_event_id p) (entry_of c) (ledger_of (books d)) (ledger_of (books d'))
    \<and> (\<forall>r. out = Inl (Got r) \<longrightarrow> tells (pl_event_id p) (entry_of c) (rs_status r) (ledger_of (books d')))"
  proof (cases "(st, S, clk, jit, tid, p, pr, d)" rule: downstream_sender.cases)
    case 1
    with turn ok show ?thesis by (auto simp: Let_def books_def split: if_splits)
  next
    case 2
    with turn ok show ?thesis by auto
  next
    case (3 st' S' clk' jit' tid' p' i n k m d0)
    obtain o1 cl where at: "attempt (transmit S) (clk i) (jit i) (post_line tid p) n k (dn_call d) = (o1, cl)"
      by fastforce
    with 3 turn have out: "d' = d\<lparr>dn_call := cl\<rparr>" "\<And>res. out = Inl res \<Longrightarrow> o1 = Inl res"
      by (auto simp: post_line_def split: sum.splits)
    from attempt_advances [OF ok(1) ok(2) [unfolded books_def] assms(2) c at] out show ?thesis
      by (auto simp: books_def)
  qed
  moreover have "late_ok (cl_net (dn_call d'))"
    using late downstream_sender_late [OF turn] unfolding late_ok_def by blast
  ultimately show ?thesis using ok(1) by (simp add: books_ok_def)
qed

text \<open>A delayed message that arrives.\<close>

lemma downstream_drift_advances:
  assumes "books_ok S d" and late: "\<And>q. is_late q d \<Longrightarrow> deliverable S q" and drift: "downstream_drift S d d'"
  shows "books_ok S d' \<and> (ledger_of (books d') = ledger_of (books d)
    \<or> (\<exists>q c. is_late q d \<and> validate_transaction (si_platform S) (raw_of_payload q) = Inr c
        \<and> advances (pl_event_id q) (entry_of c) (ledger_of (books d)) (ledger_of (books d'))))
    \<and> (\<forall>q. is_late q d' \<longrightarrow> is_late q d)"
proof -
  let ?w = "cl_net (dn_call d)"
  from drift obtain w where w: "arrives_late S ?w w" "d' = d\<lparr>dn_call := (dn_call d)\<lparr>cl_net := w\<rparr>\<rparr>"
    by (auto simp: downstream_drift_def)
  from w(1) obtain xs rq ys r where rq: "wo_late ?w = xs @ rq # ys"
    and sr: "serve_request S rq (?w\<lparr>wo_late := xs @ ys\<rparr>) = (r, w)" by (auto elim: arrives_late.cases)
  have ok: "exact_columns (si_platform S)" "acct_inv (books d)" and lok: "late_ok ?w"
    using assms(1) by (simp_all add: books_ok_def)
  from serve_late [OF sr] rq have sub: "wo_late w = xs @ ys" "set (wo_late w) \<subseteq> set (wo_late ?w)" by auto
  have "late_ok w" using lok sub(2) unfolding late_ok_def by blast
  moreover have "\<forall>q. is_late q d' \<longrightarrow> is_late q d" using w(2) sub(2) unfolding is_late_def by auto
  moreover have "acct_inv (wo_db w) \<and> (ledger_of (wo_db w) = ledger_of (books d)
    \<or> (\<exists>q c. is_late q d \<and> validate_transaction (si_platform S) (raw_of_payload q) = Inr c
        \<and> advances (pl_event_id q) (entry_of c) (ledger_of (books d)) (ledger_of (wo_db w))))"
  proof (cases "rl_json rq = None")
    case True
    from serve_bodyless [OF True sr] ok(2) show ?thesis by (simp add: books_def)
  next
    case False
    with lok rq obtain tid q where q: "rq = post_line tid q" by (auto simp: late_ok_def)
    with rq have isl: "is_late q d" by (auto simp: is_late_def)
    from late [OF this] obtain c where c: "validate_transaction (si_platform S) (raw_of_payload q) = Inr c"
      by (cases "validate_transaction (si_platform S) (raw_of_payload q)") (auto simp: deliverable_def)
    from serve_post_advances [OF ok(1) _ late [OF isl] c sr [unfolded q]] ok(2) isl c show ?thesis
      by (auto simp: books_def)
  qed
  ultimately show ?thesis using w(2) ok(1) by (auto simp: books_ok_def books_def)
qed

text \<open>The turns are those of the whole call.\<close>

lemma trying_finishes:
  assumes "attempts (transmit S) (clk i) (jit i) (post_line tid p) n k m (dn_call d) = (res, c)"
  shows "finishes (downstream_sender st S clk jit) tid p (Trying i n k m) d res (d\<lparr>dn_call := c\<rparr>)"
  using assms
proof (induction n arbitrary: k m d)
  case 0
  then show ?case by (intro finishes.last_turn) auto
next
  case (Suc n)
  obtain out c1 where at: "attempt (transmit S) (clk i) (jit i) (post_line tid p) n k (dn_call d) = (out, c1)" by fastforce
  show ?case
  proof (cases out)
    case (Inl r)
    with Suc.prems at show ?thesis by (intro finishes.last_turn) (simp add: post_line_def)
  next
    case (Inr m1)
    with Suc.prems at Suc.IH [of "Suc k" m1 "d\<lparr>dn_call := c1\<rparr>"]
    have "finishes (downstream_sender st S clk jit) tid p (Trying i n (Suc k) m1) (d\<lparr>dn_call := c1\<rparr>) res (d\<lparr>dn_call := c\<rparr>)"
      by simp
    then show ?thesis by (rule finishes.next_turn [rotated]) (simp add: at [unfolded post_line_def] Inr)
  qed
qed

lemma downstream_turns: "realises (downstream_sender st S clk jit) (downstream_call st S clk jit)"
  unfolding realises_def
proof (intro allI)
  fix tid p and d :: downstream
  let ?i = "dn_calls d" and ?send = "downstream_sender st S clk jit"
  let ?out = "downstream_call st S clk jit tid p d"
  show "finishes ?send tid p NotBegun d (fst ?out) (snd ?out)"
  proof (cases "allow (clk ?i 0) (cl_breaker (dn_call d))")
    case False
    then show ?thesis
      by (intro finishes.last_turn) (simp add: Let_def downstream_call_def client_apply_transaction_def request_call_def)
  next
    case True
    obtain res c where at: "attempts (transmit S) (clk ?i) (jit ?i) (post_line tid p) (nat (st_max_attempts st)) 0 ''None''
      (dn_call d) = (res, c)" by fastforce
    with True have out: "?out = (res, d\<lparr>dn_call := c, dn_calls := Suc ?i\<rparr>)"
      by (simp add: downstream_call_def client_apply_transaction_def request_call_def post_line_def)
    have "finishes ?send tid p (Trying ?i (nat (st_max_attempts st)) 0 ''None'') (d\<lparr>dn_calls := Suc ?i\<rparr>) res
      (d\<lparr>dn_call := c, dn_calls := Suc ?i\<rparr>)"
      using trying_finishes [where d = "d\<lparr>dn_calls := Suc ?i\<rparr>" and c = c and n = "nat (st_max_attempts st)"
          and i = ?i and k = 0 and m = "''None''"] at by (cases d) simp
    with True out show ?thesis by (simp add: Let_def finishes.next_turn [of "downstream_sender st S clk jit" tid p NotBegun d])
  qed
qed

section \<open>The account service keeps the contract\<close>

lemma has_transaction_ledger: "has_transaction k d \<longleftrightarrow> map_of (ledger_of (books d)) k \<noteq> None"
  by (simp add: has_transaction_def map_of_ledger)

lemma advances_recorded:
  assumes "advances k en (ledger_of (books d)) (ledger_of (books d'))" and "recorded S q d"
  shows "recorded S q d'"
  using assms advances_map_of [OF assms(1)] by (auto simp: recorded_def split: sum.splits)

lemma advances_bars:
  assumes "advances k en (ledger_of (books d)) (ledger_of (books d'))" and "barred S q d"
  shows "barred S q d'"
  using assms by (auto simp: barred_def split: sum.splits intro: advances_barred)

lemma advances_own:
  assumes "advances (pl_event_id p) (entry_of c) (ledger_of (books d)) (ledger_of (books d'))"
    and c: "validate_transaction (si_platform S) (raw_of_payload p) = Inr c"
    and "has_transaction k d'" and "\<not> has_transaction k d"
  shows "k = pl_event_id p \<and> recorded S p d' \<and> \<not> barred S p d"
  using assms advances_map_of [OF assms(1), of k]
  by (auto simp: has_transaction_def recorded_def barred_def map_of_ledger advances_def split: if_splits)

interpretation account_books: transaction_provider "downstream_sender st S clk jit" "downstream_drift S" "recorded S"
    "barred S" has_transaction is_late "books_ok S" "deliverable S"
proof
  fix d d' :: downstream and p q :: payload and tid pr out k
  assume turn: "downstream_sender st S clk jit tid p pr d = (out, d')"
  show "is_late q d \<or> q = p" if "is_late q d'"
    using that downstream_sender_late [OF turn] by (auto simp: is_late_def post_line_def)
  assume d: "books_ok S d" "deliverable S p"
  then obtain c where c: "validate_transaction (si_platform S) (raw_of_payload p) = Inr c"
    by (cases "validate_transaction (si_platform S) (raw_of_payload p)") (auto simp: deliverable_def)
  have ok: "books_ok S d'" and adv: "advances (pl_event_id p) (entry_of c) (ledger_of (books d)) (ledger_of (books d'))"
    using downstream_sender_advances [OF d c turn] by blast+
  show "books_ok S d'" by (rule ok)
  show "recorded S q d'" if "recorded S q d" using adv that by (rule advances_recorded)
  show "barred S q d'" if "barred S q d" using adv that by (rule advances_bars)
  show "k = pl_event_id p \<and> recorded S p d'" if "has_transaction k d'" "\<not> has_transaction k d"
    using advances_own [OF adv c that] by blast
next
  fix d :: downstream and p
  show "has_transaction (pl_event_id p) d" if "recorded S p d"
    using that by (auto simp: recorded_def has_transaction_def map_of_ledger split: sum.splits)
next
  fix d d' :: downstream and p tid pr r
  assume d: "books_ok S d" "deliverable S p" "downstream_sender st S clk jit tid p pr d = (Inl (Got r), d')"
  then obtain c where c: "validate_transaction (si_platform S) (raw_of_payload p) = Inr c"
    by (cases "validate_transaction (si_platform S) (raw_of_payload p)") (auto simp: deliverable_def)
  have adv: "advances (pl_event_id p) (entry_of c) (ledger_of (books d)) (ledger_of (books d'))"
    and said: "tells (pl_event_id p) (entry_of c) (rs_status r) (ledger_of (books d'))"
    using downstream_sender_advances [OF d(1,2) c d(3)] by blast+
  show "recorded S p d'" if "rs_status r < 400"
    using said that c by (simp add: tells_def recorded_def)
  show "\<not> has_transaction (pl_event_id p) d' \<and> barred S p d'"
    if "400 \<le> rs_status r" "has_transaction (pl_event_id p) d \<Longrightarrow> recorded S p d"
  proof -
    from said that(1) have no: "map_of (ledger_of (books d')) (pl_event_id p) \<noteq> Some (entry_of c)"
      and bar: "map_of (ledger_of (books d')) (pl_event_id p) = None \<Longrightarrow> barred_by (entry_of c) (ledger_of (books d'))"
      by (simp_all add: tells_def)
    have "map_of (ledger_of (books d')) (pl_event_id p) = None"
      using no that(2) c advances_map_of [OF adv, of "pl_event_id p"]
      by (auto simp: has_transaction_def recorded_def map_of_ledger split: option.splits if_splits)
    with bar c show ?thesis by (simp add: barred_def has_transaction_def map_of_ledger)
  qed
next
  fix d d' :: downstream and q k
  assume drift: "downstream_drift S d d'"
  show "is_late q d" if "is_late q d'"
  proof -
    from drift obtain w where w: "arrives_late S (cl_net (dn_call d)) w" "d' = d\<lparr>dn_call := (dn_call d)\<lparr>cl_net := w\<rparr>\<rparr>"
      by (auto simp: downstream_drift_def)
    from w(1) have "set (wo_late w) \<subseteq> set (wo_late (cl_net (dn_call d)))"
      by cases (auto dest: serve_late)
    with w(2) that show ?thesis by (auto simp: is_late_def)
  qed
  assume d: "books_ok S d" "\<And>q. is_late q d \<Longrightarrow> deliverable S q"
  note adv = downstream_drift_advances [OF d drift]
  show "books_ok S d'" using adv by blast
  have same: "recorded S q d' = recorded S q d" "barred S q d' = barred S q d" "has_transaction k d' = has_transaction k d"
    if "ledger_of (books d') = ledger_of (books d)" for q k
    unfolding recorded_def barred_def has_transaction_ledger that by simp_all
  show "recorded S q d'" if "recorded S q d" using adv that same advances_recorded by blast
  show "barred S q d'" if "barred S q d" using adv that same advances_bars by blast
  show "\<exists>q. is_late q d \<and> pl_event_id q = k \<and> \<not> barred S q d \<and> recorded S q d'"
    if "has_transaction k d'" "\<not> has_transaction k d"
    using adv that same advances_own by blast
qed

section \<open>Properties of the two services together\<close>

text \<open>
  The requests the two services agree on: valid, with a currency code that validation leaves as it is,
  and an account whose transactions path leads back to it.
\<close>

definition agreed :: "site \<Rightarrow> event_create \<Rightarrow> bool" where
  "agreed S c \<longleftrightarrow> event_ok c \<and> check_currency (si_platform S) (ec_currency c) = Inr (ec_currency c)
     \<and> si_route S ''POST'' (transaction_path (ec_account_id c)) = Transactions (ec_account_id c)"

lemma agreed_validates:
  "agreed S c \<Longrightarrow> validate_transaction (si_platform S) (raw_of_payload (payload_of c)) = Inr (transaction_of c)"
  by (simp add: agreed_def validate_payload)

lemma agreed_deliverable: "agreed S c \<Longrightarrow> deliverable S (payload_of c)"
  by (simp add: deliverable_def agreed_validates) (simp add: agreed_def payload_of_def)

text \<open>The transaction of an event: the same account, type, amount, currency and instant.\<close>

definition booked_as :: "event_row \<Rightarrow> tx_row \<Rightarrow> bool" where
  "booked_as ev t \<longleftrightarrow> tx_account_id t = ev_account ev \<and> tx_type t = ev_type ev \<and> tx_amount t = ev_amount ev
     \<and> tx_currency t = ev_currency ev \<and> instant (tx_timestamp t) = instant (ev_timestamp ev)"

lemma recorded_booked:
  assumes "recorded S (payload_of c) d" and "agreed S c" and "exact_columns (si_platform S)"
    and "stored_row (si_platform S) c ev"
  shows "\<exists>t. get_transaction (ec_event_id c) (books d) = Some t \<and> booked_as ev t"
proof -
  from assms(1,2) have "map_of (ledger_of (books d)) (ec_event_id c) = Some (entry_of (transaction_of c))"
    by (simp add: recorded_def agreed_validates)
  then obtain t where t: "get_transaction (ec_event_id c) (books d) = Some t" "entry_of_tx t = entry_of (transaction_of c)"
    by (auto simp: map_of_ledger)
  from assms(3) have "num_col (si_platform S) (ec_amount c) = ec_amount c"
    "instant (ts_col (si_platform S) (ec_timestamp c)) = instant (ec_timestamp c)"
    by (simp_all add: exact_columns_def ts_exact_def)
  with t assms(4) show ?thesis
    by (auto simp: booked_as_def stored_row_def entry_of_tx_def entry_of_def transaction_of_def)
qed

text \<open>The start: an empty gateway, an account service without transactions.\<close>

definition clean :: "site \<Rightarrow> downstream \<Rightarrow> bool" where
  "clean S d \<longleftrightarrow> exact_columns (si_platform S) \<and> acct_inv (books d) \<and> ad_transactions (books d) = []
     \<and> wo_late (cl_net (dn_call d)) = []"

lemma clean_facts: "clean S d \<Longrightarrow> books_ok S d \<and> \<not> has_transaction k d \<and> \<not> is_late q d"
  by (simp add: clean_def books_ok_def has_transaction_def get_transaction_def late_ok_def is_late_def)

lemma books_of_reachable:
  assumes "reachable (si_platform S) st (downstream_sender st S clk jit) (downstream_drift S) (agreed S) d s"
    and "st_fallback_enabled st" and "clean S d"
  shows "books_ok S (sy_client s)
    \<and> (\<forall>k ev. get_event k (sy_db s) = Some ev \<longrightarrow>
         (ev_status ev = APPLIED \<longrightarrow> (\<exists>t. get_transaction k (books (sy_client s)) = Some t \<and> booked_as ev t))
         \<and> (ev_status ev = FAILED \<longrightarrow> get_transaction k (books (sy_client s)) = None))
    \<and> (\<forall>k t. get_transaction k (books (sy_client s)) = Some t \<longrightarrow>
         (\<exists>ev. get_event k (sy_db s) = Some ev \<and> booked_as ev t))"
proof -
  have exact: "exact_columns (si_platform S)" using assms(3) by (simp add: clean_def)
  have start: "books_ok S d" "\<And>k. \<not> has_transaction k d" "\<And>q. \<not> is_late q d" using clean_facts [OF assms(3)] by blast+
  note ag = account_books.agreement [OF assms(1,2) agreed_deliverable start]
  have "books_ok S (sy_client s)"
    using account_books.reachable_books [OF assms(1,2) agreed_deliverable start] by (simp add: books_inv_def)
  moreover have "(ev_status ev = APPLIED \<longrightarrow> (\<exists>t. get_transaction k (books (sy_client s)) = Some t \<and> booked_as ev t))
      \<and> (ev_status ev = FAILED \<longrightarrow> get_transaction k (books (sy_client s)) = None)"
    if "get_event k (sy_db s) = Some ev" for k ev
  proof -
    from ag that obtain c where c: "agreed S c" "ec_event_id c = k" "stored_row (si_platform S) c ev"
      "ev_status ev = APPLIED \<longrightarrow> recorded S (payload_of c) (sy_client s)"
      "ev_status ev = FAILED \<longrightarrow> \<not> has_transaction k (sy_client s)" by blast
    from recorded_booked [OF _ c(1) exact c(3)] c(2,4,5) show ?thesis by (auto simp: has_transaction_def)
  qed
  moreover have "\<exists>ev. get_event k (sy_db s) = Some ev \<and> booked_as ev t"
    if t: "get_transaction k (books (sy_client s)) = Some t" for k t
  proof -
    from t have "has_transaction k (sy_client s)" by (simp add: has_transaction_def)
    with ag obtain ev c where c: "get_event k (sy_db s) = Some ev" "agreed S c" "ec_event_id c = k"
      "stored_row (si_platform S) c ev" "recorded S (payload_of c) (sy_client s)" by blast
    from recorded_booked [OF c(5,2) exact c(4)] c(1,3) t show ?thesis by auto
  qed
  ultimately show ?thesis by blast
qed


text \<open>The credits and debits of the applied events of an account.\<close>

definition applied_ids :: "string \<Rightarrow> gw_db \<Rightarrow> string set" where
  "applied_ids acc db = {k. \<exists>ev. get_event k db = Some ev \<and> ev_account ev = acc \<and> ev_status ev = APPLIED}"

definition event_delta :: "gw_db \<Rightarrow> string \<Rightarrow> money" where
  "event_delta db k = (case get_event k db of None \<Rightarrow> 0 | Some ev \<Rightarrow> signed (ev_type ev) (ev_amount ev))"

lemma ledger_balance_ids:
  assumes "uniq tx_event_id (ad_transactions db)"
  shows "ledger_balance acc (ledger_of db) =
    (\<Sum>k \<in> {k. \<exists>t. get_transaction k db = Some t \<and> tx_account_id t = acc}.
      (case get_transaction k db of None \<Rightarrow> 0 | Some t \<Rightarrow> delta_of (tx_type t) (tx_amount t)))"
proof -
  let ?rows = "filter (\<lambda>t. tx_account_id t = acc) (ad_transactions db)"
  let ?f = "\<lambda>t. delta_of (tx_type t) (tx_amount t)"
  let ?g = "\<lambda>k. case get_transaction k db of None \<Rightarrow> 0 | Some t \<Rightarrow> delta_of (tx_type t) (tx_amount t)"
  have get: "get_transaction (tx_event_id t) db = Some t" if "t \<in> set (ad_transactions db)" for t
    using tget_unique [OF assms that] by (simp add: get_transaction_def)
  have "map (\<lambda>(k, en). delta_of (en_type en) (en_amount en)) (filter (\<lambda>(k, en). en_account en = acc)
      (map (\<lambda>t. (tx_event_id t, entry_of_tx t)) rows)) = map ?f (filter (\<lambda>t. tx_account_id t = acc) rows)" for rows
    by (induction rows) (auto simp: entry_of_tx_def)
  then have "ledger_balance acc (ledger_of db) = sum_list (map ?f ?rows)"
    by (simp add: ledger_balance_delta ledger_of_def)
  also have "\<dots> = sum ?f (set ?rows)"
    using assms by (intro sum_list_distinct_conv_sum_set) (auto simp: uniq_def distinct_map)
  also have "\<dots> = sum ?g (tx_event_id ` set ?rows)"
  proof -
    have "inj_on tx_event_id (set ?rows)"
      using assms by (auto simp: uniq_def distinct_map intro: inj_on_subset)
    moreover have "?g (tx_event_id t) = ?f t" if "t \<in> set ?rows" for t using get that by simp
    ultimately show ?thesis by (simp add: sum.reindex)
  qed
  also have "tx_event_id ` set ?rows = {k. \<exists>t. get_transaction k db = Some t \<and> tx_account_id t = acc}"
  proof (intro equalityI subsetI)
    fix k assume "k \<in> tx_event_id ` set ?rows"
    then show "k \<in> {k. \<exists>t. get_transaction k db = Some t \<and> tx_account_id t = acc}" using get by force
  next
    fix k assume "k \<in> {k. \<exists>t. get_transaction k db = Some t \<and> tx_account_id t = acc}"
    then obtain t where "get_transaction k db = Some t" "tx_account_id t = acc" by blast
    with get_transaction_mem [of k db t] show "k \<in> tx_event_id ` set ?rows" by force
  qed
  finally show ?thesis .
qed

lemma settled_account_balance:
  assumes "reachable (si_platform S) st (downstream_sender st S clk jit) (downstream_drift S) (agreed S) d s"
    and "st_fallback_enabled st" and "clean S d"
    and "\<forall>k ev. get_event k (sy_db s) = Some ev \<longrightarrow> terminal (ev_status ev)"
    and "get_account acc (books (sy_client s)) = Some a"
  shows "ac_balance a = (\<Sum>k \<in> applied_ids acc (sy_db s). event_delta (sy_db s) k)"
proof -
  let ?B = "books (sy_client s)"
  from books_of_reachable [OF assms(1-3)] have inv: "acct_inv ?B"
    and applied: "\<And>k ev. get_event k (sy_db s) = Some ev \<Longrightarrow> ev_status ev = APPLIED
      \<Longrightarrow> \<exists>t. get_transaction k ?B = Some t \<and> booked_as ev t"
    and failed: "\<And>k ev. get_event k (sy_db s) = Some ev \<Longrightarrow> ev_status ev = FAILED \<Longrightarrow> get_transaction k ?B = None"
    and booked: "\<And>k t. get_transaction k ?B = Some t \<Longrightarrow> \<exists>ev. get_event k (sy_db s) = Some ev \<and> booked_as ev t"
    by (auto simp: books_ok_def)
  have status: "ev_status ev = APPLIED \<and> booked_as ev t"
    if "get_transaction k ?B = Some t" "get_event k (sy_db s) = Some ev" for k t ev
  proof -
    from assms(4) that(2) have "ev_status ev \<in> {APPLIED, FAILED}" by (simp add: terminal_def)
    with failed [OF that(2)] that(1) have "ev_status ev = APPLIED" by auto
    with booked [OF that(1)] that(2) show ?thesis by auto
  qed
  have ids: "{k. \<exists>t. get_transaction k ?B = Some t \<and> tx_account_id t = acc} = applied_ids acc (sy_db s)"
  proof (intro equalityI subsetI)
    fix k assume "k \<in> {k. \<exists>t. get_transaction k ?B = Some t \<and> tx_account_id t = acc}"
    then obtain t ev where "get_transaction k ?B = Some t" "tx_account_id t = acc" "get_event k (sy_db s) = Some ev"
      using booked by blast
    with status [of k t ev] show "k \<in> applied_ids acc (sy_db s)" by (auto simp: applied_ids_def booked_as_def)
  next
    fix k assume "k \<in> applied_ids acc (sy_db s)"
    then obtain ev where ev: "get_event k (sy_db s) = Some ev" "ev_account ev = acc" "ev_status ev = APPLIED"
      by (auto simp: applied_ids_def)
    with applied [OF ev(1,3)] show "k \<in> {k. \<exists>t. get_transaction k ?B = Some t \<and> tx_account_id t = acc}"
      by (auto simp: booked_as_def)
  qed
  have "ac_balance a = ledger_balance acc (ledger_of ?B)" by (rule account_balance [OF inv assms(5)])
  also have "\<dots> = (\<Sum>k \<in> applied_ids acc (sy_db s).
      (case get_transaction k ?B of None \<Rightarrow> 0 | Some t \<Rightarrow> delta_of (tx_type t) (tx_amount t)))"
    using ledger_balance_ids [OF acct_inv_uniq(2) [OF inv]] ids by simp
  also have "\<dots> = (\<Sum>k \<in> applied_ids acc (sy_db s). event_delta (sy_db s) k)"
  proof (rule sum.cong [OF refl])
    fix k assume "k \<in> applied_ids acc (sy_db s)"
    then obtain ev where ev: "get_event k (sy_db s) = Some ev" "ev_status ev = APPLIED"
      by (auto simp: applied_ids_def)
    with applied [OF ev] show "(case get_transaction k ?B of None \<Rightarrow> 0 | Some t \<Rightarrow> delta_of (tx_type t) (tx_amount t))
        = event_delta (sy_db s) k"
      by (auto simp: event_delta_def booked_as_def signed_delta)
  qed
  finally show ?thesis .
qed


section \<open>Reading a balance through the gateway\<close>

definition downstream_balance :: "settings \<Rightarrow> site \<Rightarrow> (nat \<Rightarrow> nat \<Rightarrow> rat) \<Rightarrow> (nat \<Rightarrow> nat \<Rightarrow> rat) \<Rightarrow> string \<Rightarrow> string
    \<Rightarrow> downstream \<Rightarrow> call_result \<times> downstream" where
  "downstream_balance st S clk jit tid account_id d =
     (let (res, c) = client_get_balance st (transmit S) (clk (dn_calls d)) (jit (dn_calls d)) tid account_id (dn_call d)
      in (res, \<lparr>dn_call = c, dn_calls = Suc (dn_calls d)\<rparr>))"

definition balance_line :: "string \<Rightarrow> string \<Rightarrow> request_line" where
  "balance_line tid account_id = \<lparr>rl_method = ''GET'', rl_path = balance_path account_id, rl_trace = tid, rl_json = None\<rparr>"

text \<open>What an answer to a request for a balance says of the books.\<close>

definition tells_balance :: "site \<Rightarrow> string \<Rightarrow> acct_db \<Rightarrow> response \<Rightarrow> bool" where
  "tells_balance S account_id db r \<longleftrightarrow> (rs_status r = 200 \<longrightarrow>
     (\<exists>a. get_account account_id db = Some a \<and> rs_json r = Some (si_render_balance S (balance_view a))))"

lemma balance_page_tells: "tells_balance S acc db (response_of S (balance_page S e acc db))"
  by (auto simp: tells_balance_def response_of_def balance_page_def get_balance_def json_response_def
      account_not_found_def http_exception_def http_error_def split: option.splits)

lemma transmit_balance:
  assumes "si_route S ''GET'' (balance_path acc) = Balance acc"
    and tr: "transmit S (balance_line tid acc) w = (out, w')"
  shows "wo_db w' = wo_db w \<and> (\<forall>r. classify out = Done (Got r) \<longrightarrow> tells_balance S acc (wo_db w) r)"
proof (cases "wo_fates w")
  case Nil
  with tr show ?thesis by (auto simp: transmit_def)
next
  case (Cons fate fates)
  let ?w = "w\<lparr>wo_fates := fates\<rparr>"
  obtain r w1 where sr: "serve_request S (balance_line tid acc) ?w = (r, w1)" by fastforce
  then have page: "tells_balance S acc (wo_db w) r" "wo_db w1 = wo_db w"
    using assms(1) balance_page_tells
    by (auto simp: serve_request_def account_server_def Let_def balance_line_def)
  have "transient (rs_status (intermediary code))" for code
    by (simp add: intermediary_def answer_def transient_def)
  with tr Cons sr page show ?thesis
    by (cases fate) (auto simp: transmit_def split: if_splits)
qed

lemma attempts_balance:
  assumes "si_route S ''GET'' (balance_path acc) = Balance acc"
    and "attempts (transmit S) clk jit (balance_line tid acc) n k m0 cl = (res, cl')"
  shows "wo_db (cl_net cl') = wo_db (cl_net cl) \<and> (\<forall>r. res = Got r \<longrightarrow> tells_balance S acc (wo_db (cl_net cl)) r)"
  using assms(2)
proof (induction n arbitrary: k m0 cl)
  case 0
  then show ?case by auto
next
  case (Suc n)
  obtain out w' where tr: "transmit S (balance_line tid acc) (cl_net cl) = (out, w')" by fastforce
  note one = transmit_balance [OF assms(1) tr]
  note eq = attempts_Suc [where send = "transmit S" and rq = "balance_line tid acc" and c = cl and out = out and s' = w'
      and n = n and clk = clk and jit = jit and k = k and ?m0.0 = m0, OF tr]
  show ?case
  proof (cases "is_retry out \<and> n \<noteq> 0")
    case True
    let ?c = "cl\<lparr>cl_net := w', cl_breaker := note_outcome (clk (Suc k)) out (cl_breaker cl),
      cl_sleeps := cl_sleeps cl @ [sleep_seconds k (jit k)]\<rparr>"
    from True Suc.prems eq have
      "attempts (transmit S) clk jit (balance_line tid acc) n (Suc k) (case classify out of Retry m \<Rightarrow> m | _ \<Rightarrow> m0) ?c
        = (res, cl')" by auto
    from Suc.IH [OF this] one show ?thesis by auto
  next
    case False
    with Suc.prems eq have "res = settled out" "cl_net cl' = w'" by auto
    with one show ?thesis by (auto simp: settled_def split: verdict_of_attempt.splits)
  qed
qed

lemma downstream_balance_tells:
  assumes "si_route S ''GET'' (balance_path acc) = Balance acc"
    and "downstream_balance st S clk jit tid acc d = (res, d')"
  shows "books d' = books d \<and> (\<forall>r. res = Got r \<longrightarrow> tells_balance S acc (books d) r)"
proof -
  obtain cl where cl: "client_get_balance st (transmit S) (clk (dn_calls d)) (jit (dn_calls d)) tid acc (dn_call d)
      = (res, cl)" "dn_call d' = cl"
    using assms(2) by (auto simp: downstream_balance_def split: prod.splits)
  show ?thesis
  proof (cases "allow (clk (dn_calls d) 0) (cl_breaker (dn_call d))")
    case False
    with cl show ?thesis by (auto simp: client_get_balance_def request_call_def books_def)
  next
    case True
    with cl(1) have "attempts (transmit S) (clk (dn_calls d)) (jit (dn_calls d)) (balance_line tid acc)
        (nat (st_max_attempts st)) 0 ''None'' (dn_call d) = (res, cl)"
      by (simp add: client_get_balance_def request_call_def balance_line_def)
    from attempts_balance [OF assms(1) this] cl(2) show ?thesis by (simp add: books_def)
  qed
qed


section \<open>A run for the witnesses\<close>

text \<open>
  One event is submitted while nothing gets through, one message being delayed, so that it is queued; at the next poll the first
  message is handled but its answer is lost, and the retry is answered as a replay.
\<close>

definition sample_site :: site where
  "sample_site = \<lparr>si_platform = exact_platform,
     si_route = (\<lambda>meth path. if meth = ''POST'' \<and> path = transaction_path ''acct-1''
       then Transactions ''acct-1'' else if meth = ''GET'' \<and> path = balance_path ''acct-1''
       then Balance ''acct-1'' else NotFound),
     si_render = (\<lambda>r. JStr (tr_event_id r)), si_render_balance = (\<lambda>b. JStr (br_account_id b)),
     si_clock = (\<lambda>n. utc (int n)), si_fresh = (\<lambda>n. replicate 36 CHR ''0'')\<rparr>"

definition sample_downstream :: downstream where
  "sample_downstream = \<lparr>dn_call = \<lparr>cl_breaker = new_breaker default_settings,
     cl_net = \<lparr>wo_db = empty_acct_db, wo_fates = [Delayed ''m'', RequestLost ''m'', RequestLost ''m'',
       AnswerLost ''m'', Arrives, RequestLost ''m'', Arrives], wo_handled = 0, wo_late = []\<rparr>, cl_sleeps = []\<rparr>, dn_calls = 0\<rparr>"

definition sample_run :: "downstream gateway" where
  "sample_run = fold (act exact_platform default_settings
     (downstream_call default_settings sample_site (\<lambda>_. of_nat) (\<lambda>_ _. 0))) sample_actions (fresh_gateway sample_downstream)"

lemma sample_run_values:
  "map ev_status (gd_events (gw_db sample_run)) = [APPLIED]"
  "map_option ev_status (get_event ''evt-1'' (gw_db sample_run)) = Some APPLIED"
  "map_option ac_balance (get_account ''acct-1'' (books (gw_client sample_run))) = Some 255000"
  by code_simp+

lemma sample_settled: "\<forall>k ev. get_event k (gw_db sample_run) = Some ev \<longrightarrow> terminal (ev_status ev)"
proof -
  have "\<forall>ev \<in> set (gd_events (gw_db sample_run)). terminal (ev_status ev)"
    using sample_run_values(1) by (auto simp: terminal_def)
  then show ?thesis by (metis get_event_def tget_Some)
qed

lemma sample_clean: "clean sample_site sample_downstream"
  by (simp add: clean_def sample_site_def sample_downstream_def books_def exact_columns_def acct_inv_empty)
     (simp add: empty_acct_db_def)

lemma sample_agreed: "list_all (action_ok (agreed sample_site)) sample_actions"
proof -
  have "check_currency (si_platform sample_site) (ec_currency sample_event) = Inr (ec_currency sample_event)"
    by code_simp
  then have "agreed sample_site sample_event"
    by (simp add: agreed_def event_ok_def sample_event_def sample_site_def utc_def)
  then show ?thesis by (simp add: sample_actions_def)
qed

lemma sample_run_reachable:
  "\<exists>s. reachable (si_platform sample_site) default_settings
      (downstream_sender default_settings sample_site (\<lambda>_. of_nat) (\<lambda>_ _. 0)) (downstream_drift sample_site) (agreed sample_site) sample_downstream s
    \<and> sy_db s = gw_db sample_run \<and> sy_client s = gw_client sample_run"
proof -
  have "si_platform sample_site = exact_platform" by (simp add: sample_site_def)
  with actions_reachable [OF sample_agreed downstream_turns, of exact_platform default_settings default_settings
      sample_site "\<lambda>_. of_nat" "\<lambda>_ _. 0" "downstream_drift sample_site" sample_downstream]
  show ?thesis unfolding sample_run_def by (metis at_rest_sel(1,2))
qed



lemma sample_balance_read:
  "case downstream_balance default_settings sample_site (\<lambda>_. of_nat) (\<lambda>_ _. 0) ''trace-2'' ''acct-1'' (gw_client sample_run)
   of (res, d') \<Rightarrow> map_sum (\<lambda>_. ()) status_code (balance_proxy res) = Inr 200"
  by code_simp


end
