(* ===== verification/TracePropagation.thy ===== *)
theory TracePropagation
  imports GatewayRoutes EndToEnd
begin

text \<open>
  The trace id of a submission across both services: through the gateway's middlewares and handler, the
  \<open>X-Trace-ID\<close> header of every attempt of the client, and the account service's own middleware to the audit
  records there.
\<close>

section \<open>Which trace ids the account service writes\<close>

definition audits_traced :: "string \<Rightarrow> acct_db \<Rightarrow> acct_db \<Rightarrow> bool" where
  "audits_traced tid db db' \<longleftrightarrow> (\<exists>new. ad_audits db' = ad_audits db @ new \<and> (\<forall>a \<in> set new. au_trace a = tid))"

lemma audits_traced_refl [simp]: "audits_traced tid db db"
  by (simp add: audits_traced_def)

lemma audits_traced_trans: "audits_traced tid db1 db2 \<Longrightarrow> audits_traced tid db2 db3 \<Longrightarrow> audits_traced tid db1 db3"
  unfolding audits_traced_def by (metis Un_iff append.assoc set_append)

lemma acct_audit_traced [intro]: "audits_traced (trace e) db db' \<Longrightarrow> audits_traced (trace e) db (acct_audit P e ac out ev acc det db')"
  by (auto simp: audits_traced_def acct_audit_eq insert_audit_def)

fun audit_write_traced :: "string \<Rightarrow> acct_write \<Rightarrow> bool" where
  "audit_write_traced tid (InsAudit a) = (au_trace a = tid)"
| "audit_write_traced tid _ = True"

lemma acct_exec_traced: "audit_write_traced tid x \<Longrightarrow> acct_exec P x db = Inr db' \<Longrightarrow> audits_traced tid db db'"
  by (cases x) (auto simp: audits_traced_def insert_audit_def split: option.splits)

lemma acct_flush_traced: "list_all (audit_write_traced tid) ws \<Longrightarrow> acct_flush P ws db = Inr db' \<Longrightarrow> audits_traced tid db db'"
  by (induction ws arbitrary: db) (auto split: sum.splits intro: audits_traced_trans acct_exec_traced)

lemma tx_writes_traced: "list_all (audit_write_traced (trace e)) (tx_writes e account_id c account)"
  by (simp add: tx_writes_def Let_def split: option.split)

lemma commit_tx_traced: "audits_traced (trace e) db (snd (commit_tx P e account_id c account db))"
  using acct_flush_traced [OF tx_writes_traced, of P e account_id c account db]
  by (auto simp: commit_tx_def acct_commit_def tx_conflict_def tx_replay_def Let_def
      split: sum.splits option.splits db_error.splits)

lemma apply_tx_traced: "audits_traced (trace e) db (snd (apply_tx P e id account_id c db))"
  using commit_tx_traced by (auto simp: apply_tx_def tx_conflict_def tx_replay_def Let_def split: option.splits)

lemma post_transaction_traced: "audits_traced (trace e) db (snd (post_transaction S e account_id p db))"
  using apply_tx_traced [of e db "si_platform S" account_id]
  by (auto simp: post_transaction_def apply_transaction_def split: sum.splits prod.splits) (metis snd_conv)+

section \<open>Every attempt of the client\<close>

lemma account_server_traced:
  assumes "trace_re (rl_trace rq)"
  shows "audits_traced (rl_trace rq) db (snd (account_server S n rq db))"
proof -
  let ?e = "\<lparr>now = si_clock S n, trace = normalize_trace_id (si_fresh S n) (Some (rl_trace rq))\<rparr>"
  have "trace ?e = rl_trace rq" using assms by (simp add: normalize_trace_id_accepts)
  with post_transaction_traced [of ?e db S] show ?thesis
    by (auto simp: account_server_def Let_def split: endpoint.splits option.splits)
qed

lemma transmit_traced:
  assumes "trace_re (rl_trace rq)"
  shows "audits_traced (rl_trace rq) (wo_db w) (wo_db (snd (transmit S rq w)))"
proof (cases "wo_fates w")
  case Nil
  then show ?thesis by (simp add: transmit_def)
next
  case (Cons fate fates)
  obtain r w1 where sr: "serve_request S rq (w\<lparr>wo_fates := fates\<rparr>) = (r, w1)" by fastforce
  with account_server_traced [OF assms, of "wo_db w" S "wo_handled w"]
  have "audits_traced (rl_trace rq) (wo_db w) (wo_db w1)"
    by (auto simp: serve_request_def split: prod.splits)
  with Cons sr show ?thesis by (cases fate) (auto simp: transmit_def)
qed

lemma attempts_traced:
  assumes "trace_re (rl_trace rq)"
  shows "audits_traced (rl_trace rq) (wo_db (cl_net cl))
    (wo_db (cl_net (snd (attempts (transmit S) clk jit rq n k m0 cl))))"
proof (induction n arbitrary: k m0 cl)
  case 0
  then show ?case by simp
next
  case (Suc n)
  obtain out w' where tr: "transmit S rq (cl_net cl) = (out, w')" by fastforce
  with transmit_traced [OF assms, of "cl_net cl" S]
  have one: "audits_traced (rl_trace rq) (wo_db (cl_net cl)) (wo_db w')" by simp
  note eq = attempts_Suc [where send = "transmit S" and rq = rq and c = cl and out = out and s' = w'
      and n = n and clk = clk and jit = jit and k = k and ?m0.0 = m0, OF tr]
  show ?case
  proof (cases "is_retry out \<and> n \<noteq> 0")
    case True
    let ?c = "cl\<lparr>cl_net := w', cl_breaker := note_outcome (clk (Suc k)) out (cl_breaker cl),
      cl_sleeps := cl_sleeps cl @ [sleep_seconds k (jit k)]\<rparr>"
    have "audits_traced (rl_trace rq) (wo_db w')
        (wo_db (cl_net (snd (attempts (transmit S) clk jit rq n (Suc k) (case classify out of Retry m \<Rightarrow> m | _ \<Rightarrow> m0) ?c))))"
      using Suc.IH [where cl = ?c] by simp
    with one audits_traced_trans show ?thesis unfolding eq if_P [OF True] by blast
  next
    case False
    with one show ?thesis unfolding eq if_not_P [OF False] by simp
  qed
qed

lemma downstream_call_traced:
  assumes "trace_re tid" and "downstream_call st S clk jit tid p d = (res, d')"
  shows "audits_traced tid (books d) (books d')"
proof -
  let ?rq = "post_line tid p"
  have "trace_re (rl_trace ?rq)" using assms(1) by (simp add: post_line_def)
  from attempts_traced [OF this, of "dn_call d"] assms(2) show ?thesis
    by (auto simp: downstream_call_def client_apply_transaction_def request_call_def books_def post_line_def
        split: prod.splits if_splits) (metis snd_conv)
qed

section \<open>One trace id from the client to the books\<close>

lemma submit_event_client:
  assumes "submit_event P st e id id call c g = (out, g')"
  shows "gw_client g' = gw_client g \<or> gw_client g' = snd (call (trace e) (payload_of c) (gw_client g))"
  using assms by (auto simp: submit_event_def submit_def split: prod.splits sum.splits option.splits)

text \<open>
  C25. One trace id spans both services: for a submission that passes validation, the id the client sent
  (or the one drawn for it) is the one in \<open>X-Trace-ID\<close> of the answer, in every audit record the gateway
  writes, in the delivery it leaves for the worker, in all it logs, and in every audit record the
  account service writes, over any number of lost messages and retries.
\<close>

theorem trace_spans_services:
  assumes "documented_build build" and "admitted st rd rq (pr_limiter w)"
    and "c = normalize_trace_id (rg_fresh rd) (rq_trace rq)" and "trace_re (rg_fresh rd)"
    and "validate_event P raw = Inr cmd"
    and "submit_event P st \<lparr>now = t, trace = c\<rparr> id id (downstream_call st S clk jit) cmd (pr_state w) = (out, g')"
    and "\<forall>m. out \<noteq> Inl (OtherException m)"
  shows "\<exists>r w' lines line new new2. gateway_app build P st rd rq
        (gateway_router P st cfg rn t (downstream_call st S clk jit) bal (PostEvent raw)) w = (Inr r, w')
    \<and> pr_state w' = g' \<and> header ''X-Trace-ID'' r = Some c
    \<and> gd_audits (gw_db g') = gd_audits (gw_db (pr_state w)) @ new \<and> (\<forall>a \<in> set new. au_trace a = c)
    \<and> (\<forall>k d. get_delivery k (gw_db g') = Some d \<longrightarrow> get_delivery k (gw_db (pr_state w)) = Some d \<or> pd_trace d = c)
    \<and> pr_log w' = pr_log w @ submit_log P st \<lparr>now = t, trace = c\<rparr> id id (downstream_call st S clk jit) cmd (pr_state w)
        @ lines @ [(c, line)]
    \<and> (\<forall>x \<in> set (drop (length (pr_log w)) (pr_log w')). fst x = c) \<and> lr_message line = ''request completed''
    \<and> ad_audits (books (gw_client g')) = ad_audits (books (gw_client (pr_state w))) @ new2
    \<and> (\<forall>a \<in> set new2. au_trace a = c)"
proof -
  have c: "trace_re c" using assms(3,4) by (simp add: normalize_trace_id_valid)
  obtain res d' where call: "downstream_call st S clk jit c (payload_of cmd) (gw_client (pr_state w)) = (res, d')" by fastforce
  from submit_event_client [OF assms(6)] call
  have "gw_client g' = gw_client (pr_state w) \<or> gw_client g' = d'" by simp
  with downstream_call_traced [OF c call]
  have "audits_traced c (books (gw_client (pr_state w))) (books (gw_client g'))" by auto
  then obtain new2 where books: "ad_audits (books (gw_client g')) = ad_audits (books (gw_client (pr_state w))) @ new2"
    "\<forall>a \<in> set new2. au_trace a = c" unfolding audits_traced_def by blast
  let ?L = "submit_log P st \<lparr>now = t, trace = c\<rparr> id id (downstream_call st S clk jit) cmd (pr_state w)"
  have L: "\<forall>x \<in> set ?L. fst x = c"
    using submit_log_trace [where e = "\<lparr>now = t, trace = c\<rparr>" and P = P] by simp
  from submission_traced [OF assms(1-3,5-7), of cfg rn bal] obtain r w' lines line where
    run: "gateway_app build P st rd rq (gateway_router P st cfg rn t (downstream_call st S clk jit) bal (PostEvent raw)) w
      = (Inr r, w')" "pr_state w' = g'" "header ''X-Trace-ID'' r = Some c" "lr_message line = ''request completed''"
    and tr: "traced c (gw_db (pr_state w)) (gw_db g')"
    and log: "pr_log w' = pr_log w @ ?L @ lines @ [(c, line)]" "\<forall>x \<in> set lines. fst x = c" by blast
  from log L have all: "\<forall>x \<in> set (drop (length (pr_log w)) (pr_log w')). fst x = c" by auto
  from tr obtain new where "gd_audits (gw_db g') = gd_audits (gw_db (pr_state w)) @ new" "\<forall>a \<in> set new. au_trace a = c"
    "\<forall>k d. get_delivery k (gw_db g') = Some d \<longrightarrow> get_delivery k (gw_db (pr_state w)) = Some d \<or> pd_trace d = c"
    unfolding traced_def by blast
  with run log(1) all books show ?thesis by blast
qed

theorem trace_spans_services_witness:
  "\<exists>r w'. gateway_app last_outermost exact_platform default_settings
      (sample_readings\<lparr>rg_fresh := hex_pad 32 7\<rparr>) (sample_web_request ''free'')
      (gateway_router exact_platform default_settings gateway_app_settings
        \<lparr>rn_event = (\<lambda>v. JStr (er_event_id v)), rn_list = (\<lambda>v. JNull), rn_audit = (\<lambda>v. JNull),
          rn_metrics = (\<lambda>_ _ _ _. ''''), rn_metrics_type = ''text/plain''\<rparr>
        (utc 1000) (downstream_call default_settings sample_site (\<lambda>_. of_nat) (\<lambda>_ _. 0))
        (\<lambda>tid acc cl. (Unavailable ''timeout'', cl)) (PostEvent sample_raw))
      (sample_process (fresh_gateway sample_downstream)) = (Inr r, w')
    \<and> header ''X-Trace-ID'' r = Some ''trace-9''"
proof -
  let ?w = "sample_process (fresh_gateway sample_downstream)" and ?rd = "sample_readings\<lparr>rg_fresh := hex_pad 32 7\<rparr>"
  let ?call = "downstream_call default_settings sample_site (\<lambda>_. of_nat) (\<lambda>_ _. 0)"
  obtain out g' where eq: "submit_event exact_platform default_settings \<lparr>now = utc 1000, trace = ''trace-9''\<rparr> id id
      ?call sample_event (pr_state ?w) = (out, g')" by fastforce
  have "case fst (submit_event exact_platform default_settings \<lparr>now = utc 1000, trace = ''trace-9''\<rparr> id id
      ?call sample_event (pr_state ?w)) of Inr rep \<Rightarrow> rp_status rep = 202 | _ \<Rightarrow> False"
    by code_simp
  with eq have out: "\<forall>m. out \<noteq> Inl (OtherException m)" by auto
  have c: "''trace-9'' = normalize_trace_id (rg_fresh ?rd) (rq_trace (sample_web_request ''free''))" by code_simp
  have adm: "admitted default_settings ?rd (sample_web_request ''free'') (pr_limiter ?w)"
    using sample_limits(1) by (simp add: admitted_def)
  have fresh: "trace_re (rg_fresh ?rd)" by (simp add: hex_pad_trace_re)
  from trace_spans_services [OF last_outermost_documented adm c fresh sample_raw_valid eq out,
      of gateway_app_settings] show ?thesis by blast
qed

end
