(* ===== verification/AuditReplay.thy ===== *)
theory AuditReplay
  imports EndToEnd
begin

text \<open>
  The gateway's audit trail read as a history: \<open>told\<close> replays the records that
  \<open>EventService.submit\<close> and the background worker write for one event
  (\<open>event-gateway/app/services\<close>, \<open>AuditRepository.record\<close>), and rejects a trail that the life of an event
  cannot have. In every reachable state the trail of an event, replayed, gives the event's status and the
  number of failed deliveries, or is one record behind because the handler ended between its two commits.
\<close>

section \<open>Replaying a trail\<close>

text \<open>
  What a trail tells of an event: nothing, a status and the number of deliveries that failed so far, or
  something no event does.
\<close>

datatype history = Unseen | Told proc_status int | Broken

definition detail_is :: "audit \<Rightarrow> string \<Rightarrow> detail \<Rightarrow> bool" where
  "detail_is a key v \<longleftrightarrow> (case au_details a of None \<Rightarrow> False | Some det \<Rightarrow> map_of det key = Some v)"

fun told_pending :: "string \<Rightarrow> history" where
  "told_pending action =
     (if action = ''EVENT_APPLIED'' then Told APPLIED 0
      else if action = ''EVENT_QUEUED'' then Told QUEUED 0
      else if action = ''EVENT_PROCESSING_FAILED'' then Told FAILED 0
      else Broken)"

fun told_queued :: "int \<Rightarrow> audit \<Rightarrow> history" where
  "told_queued n a =
     (if au_action a = ''EVENT_QUEUE_RETRY_SCHEDULED'' \<and> detail_is a ''attempt'' (DInt (n + 1)) then Told QUEUED (n + 1)
      else if au_action a = ''EVENT_APPLIED_FROM_QUEUE'' \<and> detail_is a ''attempts'' (DInt (n + 1)) then Told APPLIED n
      else if au_action a = ''EVENT_QUEUE_REJECTED'' then Told FAILED n
      else Broken)"

definition told :: "history \<Rightarrow> audit \<Rightarrow> history" where
  "told h a =
     (if au_action a \<in> {''EVENT_REPLAYED'', ''EVENT_CONFLICT_REJECTED''} then h
      else case h of
        Unseen \<Rightarrow> if au_action a = ''EVENT_STORED'' then Told PENDING 0 else Broken
      | Told PENDING n \<Rightarrow> told_pending (au_action a)
      | Told QUEUED n \<Rightarrow> told_queued n a
      | _ \<Rightarrow> Broken)"

definition history_of :: "string \<Rightarrow> audit list \<Rightarrow> history" where
  "history_of k rows = foldl told Unseen (filter (\<lambda>a. au_event a = Some k) rows)"

lemma told_stored [simp]: "told h (a\<lparr>au_id := i, au_created := t\<rparr>) = told h a"
  by (cases h) (auto simp: told_def detail_is_def split: proc_status.splits)

lemma history_of_Nil [simp]: "history_of k [] = Unseen"
  by (simp add: history_of_def)

lemma history_of_insert [simp]:
  "history_of k (insert_audit P a rows) = (if au_event a = Some k then told (history_of k rows) a else history_of k rows)"
  by (simp add: history_of_def insert_audit_def)

lemma told_new [simp]:
  "told h (new_audit e ''EVENT_REPLAYED'' oc k acc det) = h"
  "told h (new_audit e ''EVENT_CONFLICT_REJECTED'' oc k acc det) = h"
  "told Unseen (new_audit e ''EVENT_STORED'' oc k acc det) = Told PENDING 0"
  "told (Told PENDING n) (new_audit e ''EVENT_APPLIED'' oc k acc det) = Told APPLIED 0"
  "told (Told PENDING n) (new_audit e ''EVENT_QUEUED'' oc k acc det) = Told QUEUED 0"
  "told (Told PENDING n) (new_audit e ''EVENT_PROCESSING_FAILED'' oc k acc det) = Told FAILED 0"
  by (simp_all add: told_def)

section \<open>What each piece of the code adds to the trails\<close>

lemma gw_commit_audits:
  assumes "gw_commit P ws db = (None, db')"
  shows "gd_audits db' = foldl (\<lambda>rows x. case x of GwAudit a \<Rightarrow> insert_audit P a rows | _ \<Rightarrow> rows) (gd_audits db) ws"
proof -
  have one: "gd_audits db2 = (case x of GwAudit a \<Rightarrow> insert_audit P a (gd_audits db1) | _ \<Rightarrow> gd_audits db1)"
    if "gw_exec P x db1 = Inr db2" for x db1 db2
    using that by (cases x) (auto simp: upd_events_def upd_deliveries_def split: option.splits)
  have "gw_flush P ws db = Inr db' \<Longrightarrow> ?thesis"
    by (induction ws arbitrary: db) (auto split: sum.splits dest!: one)
  with assms show ?thesis by (simp add: gw_commit_def split: sum.splits)
qed

lemma gw_audit_audits [simp]:
  "gd_audits (gw_audit P e ac oc k acc det db) = insert_audit P (new_audit e ac oc k acc det) (gd_audits db)"
  by (simp add: gw_audit_eq)

lemma gw_commit_refused: "gw_commit P ws db = (Some err, db') \<Longrightarrow> db' = db"
  by (simp add: gw_commit_def split: sum.splits)

lemma submit_start_history:
  assumes "submit_start P e w1 c db = (r, db')"
  shows "history_of k (gd_audits db') = (if get_event (ec_event_id c) db \<noteq> None then history_of k (gd_audits db)
    else if r = None \<and> k = ec_event_id c then told (history_of k (gd_audits (w1 db)))
      (new_audit e ''EVENT_STORED'' ''SUCCESS'' k (ec_account_id c) None)
    else history_of k (gd_audits (w1 db)))"
  using assms
  by (auto simp: submit_start_def event_replay_def event_conflict_def gw_commit_audits dest: gw_commit_refused
      split: prod.splits option.splits if_splits)

text \<open>An answer whose body can be read, when it says it is JSON.\<close>

definition readable :: "call_result \<Rightarrow> bool" where
  "readable res \<longleftrightarrow> (case res of Got r \<Rightarrow> \<not> isl (downstream_detail r) | _ \<Rightarrow> True)"

lemma after_call_history:
  assumes "after_call P st e c res db = (out, db')" and "readable res"
    and "get_event (ec_event_id c) db = Some ev" and "history_of (ec_event_id c) (gd_audits db) = Told PENDING n"
    and "n = 0"
  shows "history_of k (gd_audits db') = (if k = ec_event_id c then Told (final_status st res) 0 else history_of k (gd_audits db))"
proof (cases res)
  case (Got r)
  with assms show ?thesis
    by (auto simp: after_call_def submit_rejected_def submit_applied_def gw_commit_status final_status_def readable_def
        split: sum.splits if_splits)
next
  case (Unavailable m)
  show ?thesis
  proof (cases "st_fallback_enabled st")
    case True
    with Unavailable assms(1) have q: "submit_queued P e c db = (out, db')" by (simp add: after_call_def)
    have "gw_commit P [UpdEvent (ec_event_id c) QUEUED (now e),
        enqueue e (ec_event_id c) (ec_account_id c) (payload_of c) (trace e) db,
        GwAudit (new_audit e ''EVENT_QUEUED'' ''QUEUED'' (ec_event_id c) (ec_account_id c)
          (Some [(''reason'', DText ''account service unavailable'')]))] db = (None, db')"
      using q submit_queued_spec [OF q] assms(3)
      by (auto simp: submit_queued_def committed_event_def split: prod.splits option.splits)
    from gw_commit_audits [OF this] Unavailable True assms(4,5) show ?thesis
      by (auto simp: enqueue_def final_status_def split: option.splits)
  next
    case False
    with Unavailable assms show ?thesis
      by (auto simp: after_call_def submit_unavailable_def gw_commit_status final_status_def)
  qed
next
  case (Crashed m)
  with assms show ?thesis by (auto simp: after_call_def final_status_def)
qed

lemma after_delivery_history:
  assumes "after_delivery P st e j d ev res db = (out, db')" and "ev_id ev = k" and "pd_event_id d = k"
    and "get_event k db = Some ev'" and "get_delivery k db = Some d'"
    and "history_of k (gd_audits db) = Told QUEUED (pd_attempts d)"
  shows "history_of i (gd_audits db') = (if i = k then (case res of
      Got r \<Rightarrow> Told (if 400 \<le> rs_status r then FAILED else APPLIED) (pd_attempts d)
    | Unavailable _ \<Rightarrow> Told QUEUED (pd_attempts d + 1)
    | Crashed _ \<Rightarrow> Told QUEUED (pd_attempts d)) else history_of i (gd_audits db))"
  using assms
  by (cases res) (auto simp: after_delivery_def commit_then_def retry_writes_def reject_writes_def apply_writes_def
      Let_def gw_commit_settle gw_commit_postpone settle_def postpone_def told_def detail_is_def split: if_splits)

section \<open>The trails of a reachable state\<close>

text \<open>A trail that misses the record of what was committed last: the event itself, or its outcome.\<close>

fun trail_lags :: "history \<Rightarrow> proc_status \<Rightarrow> bool" where
  "trail_lags Unseen t = (t = PENDING)"
| "trail_lags (Told PENDING n) t = (n = 0 \<and> (t = APPLIED \<or> t = FAILED))"
| "trail_lags _ t = False"

fun history_ok :: "history \<Rightarrow> event_row option \<Rightarrow> delivery option \<Rightarrow> bool" where
  "history_ok h None od = (h = Unseen)"
| "history_ok h (Some ev) od = ((\<exists>n. h = Told (ev_status ev) n \<and> (\<forall>d. od = Some d \<longrightarrow> pd_attempts d = n))
     \<or> trail_lags h (ev_status ev))"

definition history_inv :: "gw_db \<Rightarrow> bool" where
  "history_inv db \<longleftrightarrow> (\<forall>k. history_ok (history_of k (gd_audits db)) (get_event k db) (get_delivery k db))"

definition trails_inv :: "'c system \<Rightarrow> bool" where
  "trails_inv s \<longleftrightarrow> history_inv (sy_db s)
     \<and> (\<forall>f \<in> set (sy_flights s). (case fl_stage f of Answered res \<Rightarrow> readable res | _ \<Rightarrow> True)
        \<and> (active f \<longrightarrow> history_of (flight_id f) (gd_audits (sy_db s)) = Told PENDING 0))"

lemma history_inv_same:
  assumes "history_inv db" and "same_lookups db db'" and "\<And>k. history_of k (gd_audits db') = history_of k (gd_audits db)"
  shows "history_inv db'"
  using assms by (simp add: history_inv_def same_lookups_def)

text \<open>One event changes, and its trail with it.\<close>

lemma history_inv_upd:
  assumes "history_inv db"
    and "\<And>j. get_event j db' = (if j = k then Some ev' else get_event j db)"
    and "\<And>j. j \<noteq> k \<Longrightarrow> get_delivery j db' = get_delivery j db"
    and "\<And>j. j \<noteq> k \<Longrightarrow> history_of j (gd_audits db') = history_of j (gd_audits db)"
    and "history_ok (history_of k (gd_audits db')) (Some ev') (get_delivery k db')"
  shows "history_inv db'"
  unfolding history_inv_def
proof
  fix j
  show "history_ok (history_of j (gd_audits db')) (get_event j db') (get_delivery j db')"
    using assms by (cases "j = k") (simp_all add: history_inv_def)
qed

lemma history_event:
  assumes "history_inv db" and "get_event k db = Some ev"
  shows "(\<exists>n. history_of k (gd_audits db) = Told (ev_status ev) n \<and> (\<forall>d. get_delivery k db = Some d \<longrightarrow> pd_attempts d = n))
    \<or> trail_lags (history_of k (gd_audits db)) (ev_status ev)"
  using assms(1) [unfolded history_inv_def, rule_format, of k] assms(2) by simp

lemma trail_lags_queued [simp]: "\<not> trail_lags h QUEUED"
  by (cases "(h, QUEUED)" rule: trail_lags.cases) auto

lemma history_no_event: "history_inv db \<Longrightarrow> get_event k db = None \<Longrightarrow> history_of k (gd_audits db) = Unseen"
  unfolding history_inv_def by (metis history_ok.simps(1))

lemma trails_flights:
  "trails_inv s \<Longrightarrow> history_inv db \<Longrightarrow> set fs \<subseteq> set (sy_flights s) \<Longrightarrow>
    (\<And>f. f \<in> set fs \<Longrightarrow> active f \<Longrightarrow>
      history_of (flight_id f) (gd_audits db) = history_of (flight_id f) (gd_audits (sy_db s))) \<Longrightarrow>
    trails_inv (s\<lparr>sy_db := db, sy_flights := fs, sy_worker := wk\<rparr>)"
  by (auto simp: trails_inv_def)

lemma queued_delivery_attempts:
  "get_delivery (ec_event_id c) db = None \<Longrightarrow> pd_attempts (queued_delivery P e c db) = 0"
  by (simp add: queued_delivery_def stored_delivery_def new_delivery_def)

lemma trails_finish:
  assumes "sys_inv P ok s" and "trails_inv s"
    and fl: "sy_flights s = xs @ \<lparr>fl_env = e, fl_cmd = c, fl_stage = Answered res\<rparr> # ys"
    and ac: "after_call P st e c res (sy_db s) = (out, db')"
  shows "trails_inv (s\<lparr>sy_db := db', sy_flights := xs @ ys\<rparr>)"
proof -
  let ?k = "ec_event_id c"
  obtain ev where ev: "get_event ?k (sy_db s) = Some ev" "ev_status ev = PENDING" "get_delivery ?k (sy_db s) = None"
    and others: "\<forall>f' \<in> set (xs @ ys). active f' \<longrightarrow> flight_id f' \<noteq> ?k"
    using active_event [OF assms(1) fl] by auto
  have inv: "history_inv (sy_db s)" and ok: "readable res"
    and told: "history_of ?k (gd_audits (sy_db s)) = Told PENDING 0" "(0 :: int) = 0"
    using assms(2) fl by (auto simp: trails_inv_def)
  note trail = after_call_history [OF ac ok ev(1) told]
  let ?ev = "touched P e res (final_status st res) ev"
  have status: "ev_status ?ev = final_status st res"
    using ev(2) by (cases res) (auto simp: touched_def final_status_def)
  have "history_inv db'"
  proof (rule history_inv_upd [OF inv, where k = ?k and ev' = ?ev])
    have "pd_attempts d = 0" if "get_delivery ?k db' = Some d" for d
      using that after_call_spec [OF ac ev(1)] ev(3) queued_delivery_attempts [OF ev(3)] by (auto split: if_splits)
    with trail status show "history_ok (history_of ?k (gd_audits db')) (Some ?ev) (get_delivery ?k db')" by simp
  qed (use after_call_spec [OF ac ev(1)] trail in auto)
  moreover have "history_of (flight_id f) (gd_audits db') = history_of (flight_id f) (gd_audits (sy_db s))"
    if "f \<in> set (xs @ ys)" "active f" for f using that others trail by simp
  ultimately show ?thesis using trails_flights [OF assms(2), of db' "xs @ ys" "sy_worker s"] fl by auto
qed

text \<open>A handler that ends between its two commits: its trail falls behind.\<close>

lemma trails_saved_only:
  assumes "sys_inv P ok s" and "trails_inv s"
    and fl: "sy_flights s = xs @ \<lparr>fl_env = e, fl_cmd = c, fl_stage = Answered res\<rparr> # ys"
    and "saved_status st res = Some t" and save: "gw_commit P [UpdEvent (ec_event_id c) t (now e)] (sy_db s) = (None, db')"
  shows "trails_inv (s\<lparr>sy_db := db', sy_flights := xs @ ys\<rparr>)"
proof -
  let ?k = "ec_event_id c"
  obtain ev where ev: "get_event ?k (sy_db s) = Some ev" using active_event [OF assms(1) fl] by auto
  have inv: "history_inv (sy_db s)" and told: "history_of ?k (gd_audits (sy_db s)) = Told PENDING 0"
    using assms(2) fl by (auto simp: trails_inv_def)
  have t: "t = APPLIED \<or> t = FAILED"
    using assms(4) by (auto simp: saved_status_def split: call_result.splits if_splits)
  from save ev have db': "gd_audits db' = gd_audits (sy_db s)" "get_delivery j db' = get_delivery j (sy_db s)"
    "get_event j db' = (if j = ?k then Some (set_status P t (now e) ev) else get_event j (sy_db s))" for j
    by (auto simp: gw_commit_status)
  have "history_inv db'"
    using told t by (intro history_inv_upd [OF inv, where k = ?k and ev' = "set_status P t (now e) ev"]) (auto simp: db')
  with trails_flights [OF assms(2), of db' "xs @ ys" "sy_worker s"] fl db'(1) show ?thesis by auto
qed

lemma trails_stored_only:
  assumes "sys_inv P ok s" and "trails_inv s"
    and fl: "sy_flights s = xs @ \<lparr>fl_env = e, fl_cmd = c, fl_stage = LookedUp db\<rparr> # ys"
    and ins: "gw_commit P [InsEvent (new_event e c)] (sy_db s) = (None, db')"
  shows "trails_inv (s\<lparr>sy_db := db', sy_flights := xs @ ys, sy_origin := origin\<rparr>)"
proof -
  let ?k = "ec_event_id c"
  have id: "ev_id (new_event e c) = ?k" by (simp add: new_event_def)
  from ins have fresh: "get_event ?k (sy_db s) = None"
    and db': "gd_audits db' = gd_audits (sy_db s)" "get_delivery j db' = get_delivery j (sy_db s)"
    "get_event j db' = (if j = ?k then Some (stored_event P (new_event e c)) else get_event j (sy_db s))" for j
    by (auto simp: gw_commit_insert id split: option.splits)
  have inv: "history_inv (sy_db s)" using assms(2) by (simp add: trails_inv_def)
  have "history_of ?k (gd_audits (sy_db s)) = Unseen" using inv fresh by (rule history_no_event)
  then have "history_inv db'"
    by (intro history_inv_upd [OF inv, where k = ?k and ev' = "stored_event P (new_event e c)"]) (simp_all add: db' new_event_def)
  with trails_flights [OF assms(2), of db' "xs @ ys" "sy_worker s"] fl db'(1) show ?thesis
    by (auto simp: trails_inv_def)
qed

lemma trails_worker_done:
  assumes "sys_inv P ok s" and "trails_inv s" and wk: "sy_worker s = Delivered d ev res"
    and ad: "after_delivery P st e j d ev res (sy_db s) = (out, db')"
  shows "trails_inv (s\<lparr>sy_db := db', sy_worker := Idle\<rparr>)"
proof -
  let ?k = "pd_event_id d"
  have at: "get_delivery ?k (sy_db s) = Some d" "get_event ?k (sy_db s) = Some ev" "ev_status ev = QUEUED"
    using worker_event [OF assms(1), where d = d and ev = ev and res = res] wk by auto
  have inv: "history_inv (sy_db s)" using assms(2) by (simp add: trails_inv_def)
  from history_event [OF inv at(2)] at have told: "history_of ?k (gd_audits (sy_db s)) = Told QUEUED (pd_attempts d)" by auto
  have mine: "flight_id f \<noteq> ?k" if "f \<in> set (sy_flights s)" "active f" for f
    using assms(1) that at(2,3) by (auto simp: sys_inv_def flights_inv_def)
  note ids = get_event_Some_id [OF at(2)] refl [of ?k]
  note trail = after_delivery_history [OF ad ids at(2,1) told]
  note spec = after_delivery_spec [OF ad ids]
  have "history_inv db'"
  proof (cases res)
    case (Got r)
    define t where "t = (if 400 \<le> rs_status r then FAILED else APPLIED)"
    from spec Got at obtain a where db': "db' = settle P t (now e) ?k a (sy_db s)" by (auto simp: t_def)
    show ?thesis
      by (rule history_inv_upd [OF inv, where k = ?k and ev' = "set_status P t (now e) ev"])
        (use Got trail at in \<open>auto simp: db' t_def split: if_splits\<close>)
  next
    case (Unavailable m)
    from spec Unavailable at obtain nx t a where
      db': "db' = postpone P (pd_attempts d + 1) m nx t ?k a (sy_db s)" by auto
    show ?thesis
      by (rule history_inv_upd [OF inv, where k = ?k and ev' = ev])
        (use Unavailable trail at in \<open>auto simp: db'\<close>)
  next
    case (Crashed m)
    with spec inv show ?thesis by simp
  qed
  moreover have "history_of (flight_id f) (gd_audits db') = history_of (flight_id f) (gd_audits (sy_db s))"
    if "f \<in> set (sy_flights s)" "active f" for f using mine [OF that] trail by simp
  ultimately show ?thesis using trails_flights [OF assms(2), of db' "sy_flights s" Idle] by simp
qed

lemma trails_step:
  assumes "step P st send drift ok s s'" and sys: "sys_inv P ok s" and inv: "trails_inv s"
    and reads: "\<And>tid p pr cl res cl'. send tid p pr cl = (Inl res, cl') \<Longrightarrow> readable res"
  shows "trails_inv s'"
  using assms(1)
proof (cases rule: step.cases)
  case (known c ev e out db')
  with submit_start_same [OF known(3)] submit_start_history [OF known(3)] inv show ?thesis
    by (auto simp: trails_inv_def intro: history_inv_same same_tables_lookups)
next
  case (look_up c e)
  with inv show ?thesis by (auto simp: trails_inv_def)
next
  case (insert xs e c db ys db')
  from submit_start_inserts [OF insert(3)]
  have fresh: "get_event (ec_event_id c) db = None" "get_event (ec_event_id c) (sy_db s) = None"
    and ev: "\<And>k. get_event k db' = (if k = ec_event_id c then Some (stored_event P (new_event e c)) else get_event k (sy_db s))"
    and dl: "\<And>k. get_delivery k db' = get_delivery k (sy_db s)" by auto
  have his: "history_inv (sy_db s)" using inv by (simp add: trails_inv_def)
  then have "history_of (ec_event_id c) (gd_audits (sy_db s)) = Unseen"
    using fresh(2) by (rule history_no_event)
  moreover have "get_delivery (ec_event_id c) (sy_db s) = None"
    using sys queue_inv_none [of "sy_db s" "sy_origin s" "ec_event_id c"] fresh(2) by (simp add: sys_inv_def)
  ultimately have "history_inv db'"
    using submit_start_history [OF insert(3)] fresh(1) ev dl
    by (intro history_inv_upd [OF his, where k = "ec_event_id c" and ev' = "stored_event P (new_event e c)"])
      (auto simp: new_event_def)
  moreover have "flight_id f \<noteq> ec_event_id c" if "f \<in> set (sy_flights s)" "active f" for f
    using sys that fresh(2) by (auto simp: sys_inv_def flights_inv_def)
  ultimately show ?thesis
    using insert(1,2) inv submit_start_history [OF insert(3)] fresh(1) \<open>history_of (ec_event_id c) (gd_audits (sy_db s)) = Unseen\<close>
    by (auto simp: trails_inv_def)
next
  case (lost_race xs e c db ys out db')
  from sys lost_race(2) have "get_event (ec_event_id c) db = None"
    by (auto simp: sys_inv_def flights_inv_def)
  with submit_start_same [OF lost_race(3)] submit_start_history [OF lost_race(3)] inv lost_race(1,2) show ?thesis
    by (auto simp: trails_inv_def intro: history_inv_same same_tables_lookups)
next
  case (call xs e c pr ys out cl)
  with reads inv show ?thesis by (cases out) (auto simp: trails_inv_def)
next
  case (finish xs e c res ys out db')
  with trails_finish [OF sys inv] show ?thesis by simp
next
  case (stored_only xs e c db ys db')
  with trails_stored_only [OF sys inv] show ?thesis by simp
next
  case (saved_only xs e c res ys t db')
  with trails_saved_only [OF sys inv] show ?thesis by simp
next
  case (orphan k d out db')
  have "queue_inv (sy_db s) (sy_origin s)" using sys by (simp add: sys_inv_def)
  from queue_inv_none [OF this, of k] orphan show ?thesis by simp
next
  case (worker_done d ev res e j out db')
  with trails_worker_done [OF sys inv] show ?thesis by simp
qed (use inv in \<open>auto simp: trails_inv_def\<close>)

lemma reachable_trails:
  assumes "reachable P st send drift ok cl s"
    and "\<And>tid p pr cl res cl'. send tid p pr cl = (Inl res, cl') \<Longrightarrow> readable res"
  shows "trails_inv s"
proof -
  from assms(1) have "trails_inv s \<and> sys_inv P ok s"
    unfolding reachable_def
  proof (induction rule: rtranclp_induct)
    case base
    show ?case by (simp add: sys_inv_initial)
        (simp add: trails_inv_def history_inv_def initial_def get_event_def empty_gw_db_def)
  next
    case (step s1 s2)
    then show ?case using trails_step [OF step(2)] sys_inv_step [OF step(2)] assms(2) by blast
  qed
  then show ?thesis by simp
qed

section \<open>The two services\<close>

text \<open>The account service's answers can be read; what an intermediary says never ends a call with an answer.\<close>

lemma transmit_readable:
  assumes "transmit S rq w = (out, w')" and "classify out = Done res"
  shows "readable res"
proof (cases "wo_fates w")
  case Nil
  with assms show ?thesis by (auto simp: transmit_def)
next
  case (Cons fate fates)
  obtain r w1 where sr: "serve_request S rq (w\<lparr>wo_fates := fates\<rparr>) = (r, w1)" by fastforce
  then have "rs_is_json r" "rs_json r \<noteq> None"
    by (auto simp: serve_request_def response_of_def Let_def split: prod.splits)
  then have "\<not> isl (downstream_detail r)" by (auto simp: downstream_detail_def split: option.splits)
  with assms Cons sr show ?thesis
    by (cases fate) (auto simp: transmit_def readable_def intermediary_def answer_def transient_def split: if_splits)
qed

lemma downstream_readable:
  assumes "downstream_sender st S clk jit tid p pr d = (Inl res, d')"
  shows "readable res"
proof (cases "(st, S, clk, jit, tid, p, pr, d)" rule: downstream_sender.cases)
  case (3 st' S' clk' jit' tid' p' i n k m d0)
  obtain o1 cl where at: "attempt (transmit S) (clk i) (jit i) (post_line tid p) n k (dn_call d) = (o1, cl)" by fastforce
  obtain got w' where tr: "transmit S (post_line tid p) (cl_net (dn_call d)) = (got, w')" by fastforce
  from 3 assms at have "o1 = Inl res" by (auto simp: post_line_def split: sum.splits)
  with at have "settled got = res"
    unfolding attempt_step [where send = "transmit S" and rq = "post_line tid p" and c = "dn_call d", OF tr]
    by (auto simp: Let_def split: if_splits)
  with transmit_readable [OF tr] show ?thesis
    by (auto simp: settled_def readable_def split: verdict_of_attempt.splits)
qed (use assms in \<open>auto simp: readable_def Let_def split: if_splits\<close>)

text \<open>
  C10. The gateway's audit trail is a faithful history of every event, in every reachable state of the two
  services together: the records of an event id, in the order they were written and replayed by \<open>told\<close>, are
  a possible life of an event and end in the status the event has, and a queued event's trail counts
  exactly the failed attempts its delivery carries. An id without an event has no trail. Only a handler that
  ends between committing an event and auditing it leaves a trail that is behind, by that one record; no
  handler works on such an event any more, and it is not queued.
\<close>

theorem audit_trail_replays:
  assumes "reachable P st (downstream_sender st S clk jit) (downstream_drift S) ok d s"
  shows "case get_event k (sy_db s) of
      None \<Rightarrow> history_of k (gd_audits (sy_db s)) = Unseen
    | Some ev \<Rightarrow> (\<exists>n. history_of k (gd_audits (sy_db s)) = Told (ev_status ev) n
          \<and> (\<forall>del. get_delivery k (sy_db s) = Some del \<longrightarrow> pd_attempts del = n))
        \<or> trail_lags (history_of k (gd_audits (sy_db s))) (ev_status ev) \<and> get_delivery k (sy_db s) = None
          \<and> (\<forall>f \<in> set (sy_flights s). active f \<longrightarrow> flight_id f \<noteq> k)"
proof -
  have inv: "trails_inv s" using reachable_trails [OF assms downstream_readable] .
  have sys: "sys_inv P ok s" using reachable_inv [OF assms] .
  have "get_delivery k (sy_db s) = None \<and> (\<forall>f \<in> set (sy_flights s). active f \<longrightarrow> flight_id f \<noteq> k)"
    if ev: "get_event k (sy_db s) = Some ev" and lag: "trail_lags (history_of k (gd_audits (sy_db s))) (ev_status ev)" for ev
  proof
    have "queue_inv (sy_db s) (sy_origin s)" using sys by (simp add: sys_inv_def)
    moreover have "ev_status ev \<noteq> QUEUED" using lag by auto
    ultimately show "get_delivery k (sy_db s) = None" using queue_inv_none [of "sy_db s" _ k] ev by simp
    show "\<forall>f \<in> set (sy_flights s). active f \<longrightarrow> flight_id f \<noteq> k"
      using inv sys ev lag by (auto simp: trails_inv_def sys_inv_def flights_inv_def)
  qed
  with inv show ?thesis
    by (auto simp: trails_inv_def split: option.splits dest: history_event history_no_event)
qed

theorem audit_trail_replays_witness:
  "\<exists>n. history_of ''evt-1'' (gd_audits (gw_db sample_run)) = Told APPLIED n"
proof -
  obtain s where s: "reachable (si_platform sample_site) default_settings
      (downstream_sender default_settings sample_site (\<lambda>_. of_nat) (\<lambda>_ _. 0)) (downstream_drift sample_site)
      (agreed sample_site) sample_downstream s"
    "sy_db s = gw_db sample_run" using sample_run_reachable by blast
  have "\<not> trail_lags (history_of ''evt-1'' (gd_audits (gw_db sample_run))) APPLIED" by code_simp
  with audit_trail_replays [OF s(1), of "''evt-1''"] s(2) sample_run_values(2) show ?thesis
    by (auto split: option.splits)
qed

text \<open>A trail does fall behind: a handler that ends right after its INSERT leaves an event no record tells of.\<close>

lemma trail_may_lag:
  shows "\<exists>s ev. reachable exact_platform default_settings
      (downstream_sender default_settings sample_site (\<lambda>_. of_nat) (\<lambda>_ _. 0)) (downstream_drift sample_site)
      (agreed sample_site) sample_downstream s
    \<and> get_event ''evt-1'' (sy_db s) = Some ev \<and> history_of ''evt-1'' (gd_audits (sy_db s)) = Unseen"
proof -
  let ?step = "step exact_platform default_settings
      (downstream_sender default_settings sample_site (\<lambda>_. of_nat) (\<lambda>_ _. 0)) (downstream_drift sample_site) (agreed sample_site)"
  let ?s0 = "initial sample_downstream" and ?f = "\<lparr>fl_env = sample_env, fl_cmd = sample_event, fl_stage = LookedUp empty_gw_db\<rparr>"
  let ?s1 = "?s0\<lparr>sy_flights := [?f]\<rparr>"
  have ok: "agreed sample_site sample_event" using sample_agreed by (simp add: sample_actions_def)
  have id: "ec_event_id sample_event = ''evt-1''" by code_simp
  have none: "get_event ''evt-1'' empty_gw_db = None" by code_simp
  obtain db where db: "gw_commit exact_platform [InsEvent (new_event sample_env sample_event)] empty_gw_db = (None, db)"
    "get_event ''evt-1'' db \<noteq> None" "gd_audits db = []"
    by (auto simp: gw_commit_insert new_event_def id none empty_gw_db_def) (simp add: get_event_def tget_Cons stored_event_def id)
  have "?step ?s0 ?s1"
    using look_up [where s = ?s0 and c = sample_event and e = sample_env and ok = "agreed sample_site", OF ok] none by (simp add: id initial_def)
  moreover have "?step ?s1 (?s1\<lparr>sy_db := db, sy_flights := [] @ [], sy_origin := (sy_origin ?s1)(ec_event_id sample_event \<mapsto> sample_event)\<rparr>)"
    using db(1) by (intro stored_only [where db = empty_gw_db and e = sample_env]) (simp_all add: initial_def)
  ultimately have "?step\<^sup>*\<^sup>* ?s0 (?s1\<lparr>sy_db := db, sy_flights := [] @ [],
      sy_origin := (sy_origin ?s1)(ec_event_id sample_event \<mapsto> sample_event)\<rparr>)"
    by (rule converse_rtranclp_into_rtranclp [OF _ r_into_rtranclp])
  with db(2,3) show ?thesis unfolding reachable_def by fastforce
qed

end
