(* ===== verification/WorkerLoop.thy ===== *)
theory WorkerLoop
  imports AsyncFallback Observability
begin

text \<open>
  \<open>AsyncFallbackWorker.run\<close> (\<open>event-gateway/app/services/async_fallback.py\<close>) as the loop it is: it polls
  until the stop event is set, and waits \<open>poll_seconds\<close> between polls unless the event is set meanwhile. Time
  is in seconds of the event loop's clock; \<open>dur i\<close> is how long the \<open>i\<close>-th poll takes, \<open>stop_at\<close> when the
  event is set, if ever. The worker returns exactly when it is asked to, and how soon.
\<close>

section \<open>The loop\<close>

definition stop_is_set :: "rat option \<Rightarrow> rat \<Rightarrow> bool" where
  "stop_is_set stop_at t \<longleftrightarrow> (case stop_at of None \<Rightarrow> False | Some T \<Rightarrow> T \<le> t)"

text \<open>\<open>asyncio.wait_for(stop_event.wait(), timeout=...)\<close>, begun at \<open>t\<close>: when it is over.\<close>

definition wait_for_stop :: "settings \<Rightarrow> rat option \<Rightarrow> rat \<Rightarrow> rat" where
  "wait_for_stop st stop_at t =
     (let timeout = t + max 0 (st_poll_seconds st) in
      case stop_at of None \<Rightarrow> timeout | Some T \<Rightarrow> if T \<le> t then t else min T timeout)"

text \<open>The result: the number of polls made, when \<open>run\<close> returned, and the gateway then.\<close>

partial_function (option) run_worker ::
  "platform \<Rightarrow> settings \<Rightarrow> 'c caller \<Rightarrow> (nat \<Rightarrow> datetime \<times> (nat \<Rightarrow> tick)) \<Rightarrow> (nat \<Rightarrow> rat) \<Rightarrow> rat option
    \<Rightarrow> nat \<Rightarrow> rat \<Rightarrow> 'c gateway \<Rightarrow> (nat \<times> rat \<times> 'c gateway) option" where
  "run_worker P st call polls dur stop_at i t g =
     (if stop_is_set stop_at t then Some (i, t, g)
      else run_worker P st call polls dur stop_at (Suc i) (wait_for_stop st stop_at (t + dur i))
        (snd (process_once P st (fst (polls i)) (snd (polls i)) call g)))"

section \<open>Termination and latency\<close>

text \<open>It never returns unless the event is set.\<close>

lemma run_worker_result:
  assumes "run_worker P st call polls dur stop_at i t g = Some y"
  shows "stop_is_set stop_at (fst (snd y))"
  by (rule run_worker.raw_induct [where Pa =
      "\<lambda>((((((((P, st), call), polls), dur), stop_at), i), t), g) y. stop_is_set stop_at (fst (snd y))", OF _ assms, simplified]) (auto split: if_splits)

text \<open>
  One turn of the loop brings the stop nearer by the waiting time, or reaches it, at the latest when the poll
  is over.
\<close>

lemma wait_for_stop_bounds:
  assumes "0 < st_poll_seconds st" and "t1 = wait_for_stop st (Some T) t"
  shows "T \<le> t1 \<and> t1 \<le> max t T \<or> t1 = t + st_poll_seconds st \<and> t1 < T"
  using assms by (auto simp: wait_for_stop_def Let_def)

lemma run_worker_stops:
  assumes "0 < st_poll_seconds st" and "\<And>j. 0 \<le> dur j"
    and "T - t \<le> of_nat m * st_poll_seconds st"
  shows "\<exists>n t'. run_worker P st call polls dur (Some T) i t g =
      Some (i + n, t', worker_run P st call (map polls [i..<i + n]) g)
    \<and> T \<le> t' \<and> n \<le> m \<and> (if n = 0 then t' = t else t' \<le> T + dur (i + n - 1))"
  using assms(3)
proof (induction m arbitrary: i t g)
  case 0
  then have "stop_is_set (Some T) t" by (simp add: stop_is_set_def)
  with 0 show ?case by (intro exI [of _ "0 :: nat"] exI [of _ t]) (simp add: run_worker.simps)
next
  case (Suc m)
  show ?case
  proof (cases "T \<le> t")
    case True
    then have "stop_is_set (Some T) t" by (simp add: stop_is_set_def)
    with True show ?thesis by (intro exI [of _ "0 :: nat"] exI [of _ t]) (simp add: run_worker.simps)
  next
    case False
    let ?t1 = "wait_for_stop st (Some T) (t + dur i)"
    let ?g1 = "snd (process_once P st (fst (polls i)) (snd (polls i)) call g)"
    have step: "run_worker P st call polls dur (Some T) i t g = run_worker P st call polls dur (Some T) (Suc i) ?t1 ?g1"
      using False by (subst run_worker.simps) (simp add: stop_is_set_def)
    have w1: "worker_run P st call (map polls (i # js)) g = worker_run P st call (map polls js) ?g1" for js
      by (cases "polls i") simp
    show ?thesis
    proof (cases "T \<le> ?t1")
      case True
      then have "run_worker P st call polls dur (Some T) (Suc i) ?t1 ?g1 = Some (Suc i, ?t1, ?g1)"
        by (subst run_worker.simps) (simp add: stop_is_set_def)
      moreover have "?t1 \<le> T + dur i"
        using wait_for_stop_bounds [OF assms(1) refl, of T "t + dur i"] True False assms(2) [of i] by auto
      ultimately show ?thesis
        using step True w1 [of "[]"] by (intro exI [of _ "Suc 0"] exI [of _ ?t1]) (simp add: upt_conv_Cons)
    next
      case Running: False
      with wait_for_stop_bounds [OF assms(1) refl, of T "t + dur i"] have t1: "?t1 = t + dur i + st_poll_seconds st"
        by auto
      have "T - ?t1 \<le> of_nat m * st_poll_seconds st"
        using Suc.prems assms(2) [of i] by (simp add: t1 algebra_simps)
      from Suc.IH [OF this, of "Suc i" ?g1] obtain n t' where
        n: "run_worker P st call polls dur (Some T) (Suc i) ?t1 ?g1 =
          Some (Suc i + n, t', worker_run P st call (map polls [Suc i..<Suc i + n]) ?g1)"
        "T \<le> t'" "n \<le> m" "if n = 0 then t' = ?t1 else t' \<le> T + dur (Suc i + n - 1)" by blast
      with Running have "n \<noteq> 0" by (cases n) auto
      with n step w1 [of "[Suc i..<Suc i + n]"] show ?thesis
        by (intro exI [of _ "Suc n"] exI [of _ t']) (simp add: upt_conv_Cons)
    qed
  qed
qed

text \<open>
  C17. The worker terminates exactly when it is told to. With a positive poll interval \<open>run\<close> returns if and
  only if the stop event is set at some time \<open>T\<close>; it has then made at most one poll for each interval up to
  \<open>T\<close>, its effect is that of those polls one after the other (whatever exceptions they ended with), and it
  returns at \<open>T\<close> or, when a poll is running at \<open>T\<close>, at most that poll's duration later: within the time
  the shutdown waits for it before it cancels the task, when no poll lasts longer than that.
\<close>

theorem worker_terminates:
  assumes "0 < st_poll_seconds st" and "\<forall>j. 0 \<le> dur j"
  shows "(run_worker P st call polls dur stop_at 0 t g \<noteq> None \<longleftrightarrow> stop_at \<noteq> None)
    \<and> (\<forall>T n t' g'. stop_at = Some T \<longrightarrow> run_worker P st call polls dur stop_at 0 t g = Some (n, t', g') \<longrightarrow>
        g' = worker_run P st call (map polls [0..<n]) g
        \<and> int n \<le> max 0 \<lceil>(T - t) / st_poll_seconds st\<rceil>
        \<and> T \<le> t' \<and> (if n = 0 then t' = t else t' - T \<le> dur (n - 1))
        \<and> (n \<noteq> 0 \<longrightarrow> (\<forall>j. dur j \<le> shutdown_timeout st) \<longrightarrow> t' - T \<le> shutdown_timeout st))"
proof (cases stop_at)
  case None
  have "run_worker P st call polls dur stop_at 0 t g \<noteq> Some y" for y
    using run_worker_result [of P st call polls dur stop_at 0 t g y] None by (auto simp: stop_is_set_def)
  with None show ?thesis by auto
next
  case (Some T)
  let ?m = "nat \<lceil>(T - t) / st_poll_seconds st\<rceil>"
  have "(T - t) / st_poll_seconds st \<le> of_nat ?m" by linarith
  then have "T - t \<le> of_nat ?m * st_poll_seconds st" using assms(1) by (simp add: divide_simps)
  from run_worker_stops [where dur = dur, OF assms(1) assms(2) [rule_format] this, where P = P and call = call and polls = polls and i = 0 and g = g] obtain n t' where
    n: "run_worker P st call polls dur (Some T) 0 t g = Some (n, t', worker_run P st call (map polls [0..<n]) g)"
    "T \<le> t'" "n \<le> ?m" "if n = 0 then t' = t else t' \<le> T + dur (n - 1)" unfolding add_0 by blast
  have "t' - T \<le> shutdown_timeout st" if "n \<noteq> 0" "\<forall>j. dur j \<le> shutdown_timeout st"
    using that n(4) order_trans [of "t' - T" "dur (n - 1)" "shutdown_timeout st"] by (auto simp: algebra_simps)
  with Some n show ?thesis by (auto simp: algebra_simps)
qed

text \<open>Polls of a tenth of a second, stopped after two seconds and a half: three polls, and back at once.\<close>

theorem worker_terminates_witness:
  "\<exists>g'. run_worker exact_platform default_settings (\<lambda>tid p n. (Unavailable ''timeout'', Suc n))
       (\<lambda>_. (utc 2000, \<lambda>_. sample_tick)) (\<lambda>_. 1 / 10) (Some (5 / 2)) 0 0 (queued_gateway 0) = Some (3, 5 / 2, g')
     \<and> g' = worker_run exact_platform default_settings (\<lambda>tid p n. (Unavailable ''timeout'', Suc n))
       (map (\<lambda>_. (utc 2000, \<lambda>_. sample_tick)) [0..<3]) (queued_gateway 0)"
proof -
  let ?run = "run_worker exact_platform default_settings (\<lambda>tid p n. (Unavailable ''timeout'', Suc n))
       (\<lambda>_. (utc 2000, \<lambda>_. sample_tick)) (\<lambda>_. 1 / 10) (Some (5 / 2)) 0 0 (queued_gateway 0)"
  have "\<exists>g'. ?run = Some (3, 5 / 2, g')"
    by (simp add: run_worker.simps stop_is_set_def wait_for_stop_def Let_def)
  then obtain g' where g': "?run = Some (3, 5 / 2, g')" by blast
  have "0 < st_poll_seconds default_settings" "\<forall>j :: nat. 0 \<le> (1 / 10 :: rat)" by simp_all
  from worker_terminates [OF this] g' show ?thesis by blast
qed

end
