(* ===== verification/AccountRoutes.thy ===== *)
theory AccountRoutes
  imports EndToEnd Applications HandlerLog
begin

text \<open>
  The account service's routes behind its middlewares (\<open>account-service/app/main.py\<close> with the routers of
  \<open>app/api\<close>), for requests served one at a time, and its equivalence with \<open>account_server\<close>, the account service
  of \<open>EndToEnd\<close>: what the gateway's client talks to there is the whole application. As in \<open>GatewayRoutes\<close>,
  paths, bodies and renderings are the framework's, and the page of metrics is what the library
  renders from the counters.
\<close>

section \<open>The routes\<close>

datatype account_call =
    PostTransaction string "raw_transaction option"
  | GetBalance string
  | GetAccount string
  | TransactionAudit string
  | AccountHealth bool
  | AccountMetrics
  | NoRoute

record account_renderers =
  rn_transaction :: "tx_result \<Rightarrow> json"
  rn_balance :: "balance_response \<Rightarrow> json"
  rn_account :: "account_response \<Rightarrow> json"
  rn_trail :: "audit_response list \<Rightarrow> json"
  rn_counters :: "(string \<times> string \<times> string \<Rightarrow> nat) \<Rightarrow> (string \<times> string \<Rightarrow> rat list) \<Rightarrow> string"
  rn_counters_type :: string

definition account_router :: "platform \<Rightarrow> int \<Rightarrow> app_settings \<Rightarrow> account_renderers \<Rightarrow> datetime \<Rightarrow> account_call
    \<Rightarrow> acct_db app" where
  "account_router P recent_limit cfg rn t ac w =
     (let db = pr_state w; e = \<lparr>now = t, trace = current_trace_id w\<rparr> in
      case ac of
        PostTransaction account_id None \<Rightarrow> (Inl (RequestValidationError [([''body''], ''Field required'')]), w)
      | PostTransaction account_id (Some raw) \<Rightarrow> (case validate_transaction P raw of
            Inl errs \<Rightarrow> (Inl (request_error P errs), w)
          | Inr c \<Rightarrow> (let (out, db') = apply_transaction P e id account_id c db
              in (ok_or_raise (reply_response (rn_transaction rn)) out,
                  w\<lparr>pr_state := db', pr_log := pr_log w @ apply_log P e id account_id c db\<rparr>)))
      | GetBalance account_id \<Rightarrow> (ok_or_raise (\<lambda>b. json_response 200 (rn_balance rn b)) (get_balance account_id db), w)
      | GetAccount account_id \<Rightarrow>
          (ok_or_raise (\<lambda>a. json_response 200 (rn_account rn a)) (get_account_details recent_limit account_id db), w)
      | TransactionAudit k \<Rightarrow> (Inr (json_response 200 (rn_trail rn (audit_for_event k (ad_audits db)))), w)
      | AccountHealth db_works \<Rightarrow> (Inr (account_health cfg db_works), w)
      | AccountMetrics \<Rightarrow>
          (Inr (metrics_page (rn_counters_type rn) (rn_counters rn (pr_requests w) (pr_latency w))), w)
      | NoRoute \<Rightarrow> (Inr (json_response 404 (JObj [(''detail'', JStr ''Not Found'')])), w))"

section \<open>The service of EndToEnd is this application\<close>

fun call_of :: "endpoint \<Rightarrow> payload option \<Rightarrow> account_call" where
  "call_of (Transactions acc) p = PostTransaction acc (map_option raw_of_payload p)"
| "call_of (Balance acc) p = GetBalance acc"
| "call_of NotFound p = NoRoute"

definition line_call :: "site \<Rightarrow> request_line \<Rightarrow> account_call" where
  "line_call S rq = call_of (si_route S (rl_method rq) (rl_path rq)) (rl_json rq)"

text \<open>What the routes come to, under the trace id of the context.\<close>

lemma router_serves:
  assumes "account_server S n rq (pr_state w) = (h, db')"
    and "rn_transaction rn = si_render S" and "rn_balance rn = si_render_balance S"
    and c: "ctx_var w = normalize_trace_id (si_fresh S n) (Some (rl_trace rq))"
  shows "\<exists>res xs. account_router (si_platform S) recent cfg rn (si_clock S n) (line_call S rq) w
      = (res, w\<lparr>pr_state := db', pr_log := pr_log w @ xs\<rparr>) \<and> (\<forall>x \<in> set xs. fst x = ctx_var w)
    \<and> status_code (answer_of (si_platform S) (ctx_var w) res) = status_code h
    \<and> body (answer_of (si_platform S) (ctx_var w) res) = body h"
proof (cases "si_route S (rl_method rq) (rl_path rq)")
  case (Transactions acc)
  show ?thesis
  proof (cases "rl_json rq")
    case None
    with assms Transactions show ?thesis
      by (auto simp: account_router_def line_call_def account_server_def answer_of_def Let_def intro!: exI [of _ "[]"])
  next
    case (Some p)
    let ?e = "\<lparr>now = si_clock S n, trace = ctx_var w\<rparr>"
    have post: "post_transaction S ?e acc p (pr_state w) = (h, db')"
      using assms(1) Transactions Some c by (simp add: account_server_def Let_def)
    show ?thesis
    proof (cases "validate_transaction (si_platform S) (raw_of_payload p)")
      case (Inl errs)
      with post Transactions Some show ?thesis
        by (auto simp: account_router_def line_call_def post_transaction_def answer_of_def Let_def intro!: exI [of _ "[]"])
    next
      case (Inr cmd)
      obtain out db1 where ap: "apply_transaction (si_platform S) ?e id acc cmd (pr_state w) = (out, db1)" by fastforce
      have "\<forall>x \<in> set (apply_log (si_platform S) ?e id acc cmd (pr_state w)). fst x = ctx_var w"
        using apply_log_trace [where e = ?e and P = "si_platform S"] by simp
      with ap post Inr Transactions Some assms(2) show ?thesis
        by (cases out) (auto simp: account_router_def line_call_def post_transaction_def answer_of_def
          current_trace_id_def reply_response_def ok_or_raise_def json_response_def Let_def)
    qed
  qed
next
  case (Balance acc)
  with assms show ?thesis
    by (cases "get_balance acc (pr_state w)")
      (auto simp: account_router_def line_call_def account_server_def balance_page_def answer_of_def
        ok_or_raise_def Let_def intro!: exI [of _ "[]"])
next
  case NotFound
  with assms show ?thesis
    by (auto simp: account_router_def line_call_def account_server_def answer_of_def Let_def intro!: exI [of _ "[]"])
qed

text \<open>
  C29. The account service that the client reaches in \<open>EndToEnd\<close> is the whole application: behind its
  middlewares and exception handlers, every request the client can send is answered with the status and the
  body of \<open>account_server\<close> and leaves the database \<open>account_server\<close> leaves, unless that answer is the 500 of an
  exception nobody expects; the answer carries the request's trace id in \<open>X-Trace-ID\<close> and so do the log
  records of the handlers, while the access log entry, written after the id was reset, does not.
\<close>

theorem account_stack_serves:
  assumes "documented_build build" and "rq_trace wq = Some (rl_trace rq)" and "rg_fresh rd = si_fresh S n"
    and "rn_transaction rn = si_render S" and "rn_balance rn = si_render_balance S"
    and "account_server S n rq (pr_state w) = (h, db')" and "status_code h \<noteq> 500"
  shows "\<exists>r w' lines line. account_app build (si_platform S) rd wq
        (account_router (si_platform S) recent cfg rn (si_clock S n) (line_call S rq)) w = (Inr r, w')
    \<and> status_code r = status_code h \<and> body r = body h \<and> pr_state w' = db'
    \<and> header ''X-Trace-ID'' r = Some (normalize_trace_id (si_fresh S n) (Some (rl_trace rq)))
    \<and> pr_log w' = pr_log w @ lines @ [(ctx_var w, line)]
    \<and> (\<forall>x \<in> set lines. fst x = normalize_trace_id (si_fresh S n) (Some (rl_trace rq)))
    \<and> lr_message line = ''request completed''"
proof -
  let ?c = "normalize_trace_id (si_fresh S n) (Some (rl_trace rq))"
  let ?router = "account_router (si_platform S) recent cfg rn (si_clock S n) (line_call S rq)"
  have c: "?c = normalize_trace_id (rg_fresh rd) (rq_trace wq)" using assms(2,3) by simp
  have "account_server S n rq (pr_state (enter_trace ?c w)) = (h, db')" using assms(6) by simp
  from router_serves [where recent = recent and cfg = cfg, OF this assms(4,5)] obtain res xs where
    run: "?router (enter_trace ?c w) = (res, (enter_trace ?c w)\<lparr>pr_state := db', pr_log := pr_log w @ xs\<rparr>)"
    and xs: "\<forall>x \<in> set xs. fst x = ?c"
    and same: "status_code (answer_of (si_platform S) ?c res) = status_code h"
      "body (answer_of (si_platform S) ?c res) = body h" by auto
  have "\<not> unexpected res"
    using same(1) assms(7) by (auto simp: unexpected_def answer_of_def generic_error_def json_response_def
        split: sum.splits exn.splits)
  from account_app_handled [where router = ?router and P = "si_platform S", OF assms(1) c run _ this] same
  obtain r w' lines line where g: "account_app build (si_platform S) rd wq ?router w = (Inr r, w')"
    "status_code r = status_code h" "body r = body h" "pr_state w' = db'" "header ''X-Trace-ID'' r = Some ?c"
    "pr_log w' = pr_log w @ (xs @ lines) @ [(ctx_var w, line)]" "\<forall>x \<in> set lines. fst x = ?c"
    "lr_message line = ''request completed''" by auto
  from xs g(7) have "\<forall>x \<in> set (xs @ lines). fst x = ?c" by auto
  with g show ?thesis by blast
qed

text \<open>A transaction the service takes, through all its layers.\<close>

definition sample_line :: request_line where
  "sample_line = post_line ''trace-9'' (payload_of sample_event)"

definition sample_account_renderers :: account_renderers where
  "sample_account_renderers = \<lparr>rn_transaction = si_render sample_site, rn_balance = si_render_balance sample_site,
     rn_account = (\<lambda>_. JNull), rn_trail = (\<lambda>_. JNull),
     rn_counters = (\<lambda>_ _. ''''), rn_counters_type = ''text/plain''\<rparr>"

lemma sample_served:
  "status_code (fst (account_server sample_site 0 sample_line empty_acct_db)) = 201"
  "length (ad_transactions (snd (account_server sample_site 0 sample_line empty_acct_db))) = 1"
  by code_simp+

theorem account_stack_serves_witness:
  "\<exists>r w'. account_app last_outermost exact_platform (sample_readings\<lparr>rg_fresh := si_fresh sample_site 0\<rparr>)
      ((sample_web_request ''gateway'')\<lparr>rq_trace := Some ''trace-9''\<rparr>)
      (account_router exact_platform recent_transactions_limit account_app_settings sample_account_renderers (si_clock sample_site 0)
        (line_call sample_site sample_line)) (sample_process empty_acct_db) = (Inr r, w')
    \<and> status_code r = 201 \<and> length (ad_transactions (pr_state w')) = 1"
proof -
  obtain h db' where h: "account_server sample_site 0 sample_line (pr_state (sample_process empty_acct_db)) = (h, db')"
    by fastforce
  have state: "pr_state (sample_process empty_acct_db) = empty_acct_db" by (simp add: sample_process_def)
  from sample_served h have facts: "status_code h = 201" "length (ad_transactions db') = 1" by (simp_all add: state)
  have P: "si_platform sample_site = exact_platform" and tid: "rl_trace sample_line = ''trace-9''"
    by (simp_all add: sample_site_def sample_line_def post_line_def)
  have ne: "status_code h \<noteq> 500" using facts by simp
  from account_stack_serves [where S = sample_site and rn = sample_account_renderers and recent = recent_transactions_limit and n = 0
      and wq = "(sample_web_request ''gateway'')\<lparr>rq_trace := Some ''trace-9''\<rparr>"
      and rd = "sample_readings\<lparr>rg_fresh := si_fresh sample_site 0\<rparr>" and cfg = account_app_settings,
      OF last_outermost_documented _ _ _ _ h ne] tid facts
  show ?thesis unfolding P by (fastforce simp: sample_account_renderers_def)
qed

end
