(* ===== verification/QueueMetrics.thy ===== *)
theory QueueMetrics
  imports AuditReplay Applications
begin

text \<open>
  The counters of the fallback queue (\<open>QUEUED_EVENTS\<close>, \<open>PROCESSED_EVENTS\<close>, \<open>RETRY_EVENTS\<close>,
  \<open>FAILED_EVENTS\<close> and \<open>QUEUE_DEPTH\<close> of \<open>services/async_fallback.py\<close>), over runs of one process: what they
  say agrees with the queue and with the audit trail.
\<close>

section \<open>What the counters should say\<close>

definition audit_total :: "string \<Rightarrow> audit list \<Rightarrow> nat" where
  "audit_total action rows = length (filter (\<lambda>a. au_action a = action) rows)"

lemma audit_total_Nil [simp]: "audit_total action [] = 0"
  by (simp add: audit_total_def)

lemma audit_total_insert [simp]:
  "audit_total action (insert_audit P a rows) = audit_total action rows + (if au_action a = action then 1 else 0)"
  by (simp add: audit_total_def insert_audit_def)

definition counters_agree :: "metrics \<Rightarrow> gw_db \<Rightarrow> bool" where
  "counters_agree m db \<longleftrightarrow> m_queued m = audit_total ''EVENT_QUEUED'' (gd_audits db)
     \<and> m_retried m = audit_total ''EVENT_QUEUE_RETRY_SCHEDULED'' (gd_audits db)
     \<and> m_processed m = audit_total ''EVENT_APPLIED_FROM_QUEUE'' (gd_audits db)
     \<and> m_failed m = audit_total ''EVENT_QUEUE_REJECTED'' (gd_audits db)
     \<and> m_queued m = delivery_count db + m_processed m + m_failed m"

definition queue_sound :: "gw_db \<Rightarrow> bool" where
  "queue_sound db \<longleftrightarrow> keys_ok db
     \<and> (\<forall>k. (get_delivery k db \<noteq> None) = (map_option ev_status (get_event k db) = Some QUEUED))"

definition counters_inv :: "'c gateway \<Rightarrow> bool" where
  "counters_inv g \<longleftrightarrow> queue_sound (gw_db g) \<and> counters_agree (gw_metrics g) (gw_db g)"

lemma queue_soundD:
  "queue_sound db \<Longrightarrow> map_option ev_status (get_event k db) \<noteq> Some QUEUED \<Longrightarrow> get_delivery k db = None"
  unfolding queue_sound_def by blast

section \<open>The depth of the queue\<close>

lemma delivery_count_card:
  assumes "keys_ok db"
  shows "delivery_count db = card {k. get_delivery k db \<noteq> None} \<and> finite {k. get_delivery k db \<noteq> None}"
proof -
  have "{k. get_delivery k db \<noteq> None} = set (map pd_event_id (gd_deliveries db))"
    by (auto simp: get_delivery_def tget_None)
  moreover have "distinct (map pd_event_id (gd_deliveries db))" using assms by (simp add: keys_ok_def uniq_def)
  ultimately show ?thesis by (simp only: delivery_count_def) (metis distinct_card finite_set length_map)
qed

lemma delivery_count_same:
  assumes "keys_ok db" and "keys_ok db'" and "\<And>k. (get_delivery k db' = None) = (get_delivery k db = None)"
  shows "delivery_count db' = delivery_count db"
  using assms by (simp add: delivery_count_card)

lemma delivery_count_insert:
  assumes "keys_ok db" and "keys_ok db'" and "get_delivery k db = None"
    and "\<And>j. get_delivery j db' = (if j = k then Some d else get_delivery j db)"
  shows "delivery_count db' = Suc (delivery_count db)"
proof -
  have "{j. get_delivery j db' \<noteq> None} = insert k {j. get_delivery j db \<noteq> None}" using assms(4) by auto
  with assms(1-3) delivery_count_card [OF assms(1)] show ?thesis by (simp add: delivery_count_card)
qed

lemma delivery_count_delete:
  assumes "keys_ok db" and "keys_ok db'" and "get_delivery k db \<noteq> None"
    and "\<And>j. get_delivery j db' = (if j = k then None else get_delivery j db)"
  shows "delivery_count db = Suc (delivery_count db')"
proof -
  have "{j. get_delivery j db \<noteq> None} = insert k {j. get_delivery j db' \<noteq> None}" using assms(3,4) by auto
  moreover have "k \<notin> {j. get_delivery j db' \<noteq> None}" using assms(4) by simp
  ultimately show ?thesis
    using delivery_count_card [OF assms(1)] delivery_count_card [OF assms(2)] by simp
qed

section \<open>One submission\<close>

lemma submit_start_totals:
  assumes "submit_start P e id c db = (r, db')"
    and "action \<notin> {''EVENT_STORED'', ''EVENT_REPLAYED'', ''EVENT_CONFLICT_REJECTED''}"
  shows "audit_total action (gd_audits db') = audit_total action (gd_audits db)"
  using assms
  by (auto simp: submit_start_def event_replay_def event_conflict_def gw_commit_audits dest: gw_commit_refused
      split: prod.splits option.splits if_splits)

lemma submit_queued_audits:
  assumes "submit_queued P e c db = (out, db')" and "get_event (ec_event_id c) db = Some ev"
  shows "\<exists>a. gd_audits db' = insert_audit P a (gd_audits db) \<and> au_action a = ''EVENT_QUEUED''"
proof -
  have "gw_commit P [UpdEvent (ec_event_id c) QUEUED (now e),
        enqueue e (ec_event_id c) (ec_account_id c) (payload_of c) (trace e) db,
        GwAudit (new_audit e ''EVENT_QUEUED'' ''QUEUED'' (ec_event_id c) (ec_account_id c)
          (Some [(''reason'', DText ''account service unavailable'')]))] db = (None, db')"
    using assms(1) submit_queued_spec [OF assms(1)] assms(2)
    by (auto simp: submit_queued_def committed_event_def split: prod.splits option.splits)
  from gw_commit_audits [OF this] show ?thesis by (auto simp: enqueue_def split: option.splits)
qed

lemma after_call_counters:
  assumes "after_call P st e c res db = (out, db')" and ev: "get_event (ec_event_id c) db = Some ev"
    and pending: "ev_status ev = PENDING" and sound: "queue_sound db" and agree: "counters_agree m db"
  shows "queue_sound db' \<and> counters_agree (count_queued st res out m) db'"
proof -
  let ?k = "ec_event_id c"
  note spec = after_call_spec [OF assms(1) ev]
  have none: "get_delivery ?k db = None" using queue_soundD [OF sound] ev pending by simp
  have keys: "keys_ok db" "keys_ok db'"
    using sound after_call_keys [OF _ assms(1)] by (simp_all add: queue_sound_def)
  have status: "ev_status (touched P e res (final_status st res) ev) = final_status st res"
    using pending by (cases res) (auto simp: touched_def final_status_def)
  have "queue_sound db'"
    using keys sound spec status none ev pending by (auto simp: queue_sound_def)
  moreover have "counters_agree (count_queued st res out m) db'"
  proof (cases "final_status st res = QUEUED")
    case True
    then obtain msg where u: "res = Unavailable msg" "st_fallback_enabled st"
      by (auto simp: final_status_def split: call_result.splits if_splits)
    with assms(1) have "submit_queued P e c db = (out, db')" by (simp add: after_call_def)
    from submit_queued_audits [OF this ev] obtain a where
      "gd_audits db' = insert_audit P a (gd_audits db)" "au_action a = ''EVENT_QUEUED''" by blast
    moreover have "delivery_count db' = Suc (delivery_count db)"
      using delivery_count_insert [OF keys none] spec True by simp
    moreover have "\<not> isl out" using spec u by (simp add: final_answer_def)
    ultimately show ?thesis using agree u by (cases out) (auto simp: counters_agree_def count_queued_def)
  next
    case False
    have "audit_total action (gd_audits db') = audit_total action (gd_audits db)"
      if "action \<notin> {''EVENT_APPLIED'', ''EVENT_PROCESSING_FAILED''}" for action
      using assms(1) False that
      by (cases res) (auto simp: after_call_def submit_rejected_def submit_applied_def submit_unavailable_def
          gw_commit_audits final_status_def dest: gw_commit_refused
          split: prod.splits sum.splits option.splits if_splits)
    moreover have "delivery_count db' = delivery_count db"
      using delivery_count_same [OF keys] spec False by simp
    moreover have "count_queued st res out m = m"
      using False by (auto simp: count_queued_def final_status_def split: call_result.splits sum.splits if_splits)
    ultimately show ?thesis using agree by (simp add: counters_agree_def)
  qed
  ultimately show ?thesis by simp
qed

lemma submit_counters:
  assumes "counters_inv g"
  shows "counters_inv (snd (submit P st e id id call c g))"
proof -
  let ?db = "gw_db g"
  have sound: "queue_sound ?db" and agree: "counters_agree (gw_metrics g) ?db" using assms by (simp_all add: counters_inv_def)
  obtain r db1 where start: "submit_start P e id c ?db = (r, db1)" by fastforce
  have keys: "keys_ok db1"
    using sound by (intro submit_start_keys [OF _ _ start]) (simp_all add: queue_sound_def)
  have totals: "audit_total action (gd_audits db1) = audit_total action (gd_audits ?db)"
    if "action \<notin> {''EVENT_STORED'', ''EVENT_REPLAYED'', ''EVENT_CONFLICT_REJECTED''}" for action
    using that by (rule submit_start_totals [OF start])
  show ?thesis
  proof (cases "get_event (ec_event_id c) ?db")
    case (Some ev)
    with submit_start_known [OF Some, of P e id] start obtain out where r: "r = Some out" and same: "same_tables ?db db1"
      by auto
    from same have lookups: "get_event k db1 = get_event k ?db" "get_delivery k db1 = get_delivery k ?db" for k
      by (simp_all add: same_tablesD)
    have "queue_sound db1" using sound keys by (simp add: queue_sound_def lookups)
    moreover have "delivery_count db1 = delivery_count ?db"
      using sound by (intro delivery_count_same) (simp_all add: keys queue_sound_def lookups)
    then have "counters_agree (gw_metrics g) db1" using agree by (simp add: counters_agree_def totals)
    ultimately show ?thesis using start r by (simp add: submit_def counters_inv_def)
  next
    case None
    from submit_start_new [of c ?db id P e] None start have r: "r = None"
      and ev: "\<And>k. get_event k db1 = (if k = ec_event_id c then Some (stored_event P (new_event e c)) else get_event k ?db)"
      and dl: "\<And>k. get_delivery k db1 = get_delivery k ?db" by auto
    have "queue_sound db1"
      using sound keys queue_soundD [OF sound] None by (simp add: queue_sound_def ev dl new_event_def)
    moreover have "delivery_count db1 = delivery_count ?db"
      using sound by (intro delivery_count_same) (simp_all add: keys queue_sound_def dl)
    then have "counters_agree (gw_metrics g) db1" using agree by (simp add: counters_agree_def totals)
    moreover obtain res cl where call: "call (trace e) (payload_of c) (gw_client g) = (res, cl)" by fastforce
    moreover obtain out db2 where ac: "after_call P st e c res db1 = (out, db2)" by fastforce
    moreover have "get_event (ec_event_id c) db1 = Some (stored_event P (new_event e c))" by (simp add: ev)
    moreover have "ev_status (stored_event P (new_event e c)) = PENDING" by (simp add: new_event_def)
    ultimately show ?thesis
      using after_call_counters [OF ac] start r call by (simp add: submit_def counters_inv_def)
  qed
qed

section \<open>One delivery\<close>

lemma after_delivery_counters:
  assumes ad: "after_delivery P st e j d ev res db = (out, db')"
    and ev: "get_event k db = Some ev" and d: "get_delivery k db = Some d"
    and sound: "queue_sound db" and agree: "counters_agree m db"
  shows "queue_sound db' \<and> counters_agree (count_delivery res out m) db'"
proof -
  have ids: "ev_id ev = k" "pd_event_id d = k" using get_event_Some_id [OF ev] get_delivery_Some_id [OF d] by simp_all
  note spec = after_delivery_spec [OF ad ids]
  have keys: "keys_ok db" "keys_ok db'"
    using sound after_delivery_keys [OF _ ad] by (simp_all add: queue_sound_def)
  show ?thesis
  proof (cases res)
    case (Got r)
    define s where "s = (if 400 \<le> rs_status r then FAILED else APPLIED)"
    let ?action = "if 400 \<le> rs_status r then ''EVENT_QUEUE_REJECTED'' else ''EVENT_APPLIED_FROM_QUEUE''"
    from spec Got ev obtain a where db': "db' = settle P s (now e) k a db" and out: "out = Inr True" by (auto simp: s_def)
    have "\<exists>a. gd_audits db' = insert_audit P a (gd_audits db) \<and> au_action a = ?action"
      using ad Got out by (auto simp: after_delivery_def commit_then_def reject_writes_def apply_writes_def
          gw_commit_audits split: prod.splits option.splits if_splits)
    then obtain b where "gd_audits db' = insert_audit P b (gd_audits db)" "au_action b = ?action" by blast
    moreover have "delivery_count db = Suc (delivery_count db')"
      using d by (intro delivery_count_delete [OF keys, of k]) (simp_all add: db')
    moreover have "queue_sound db'"
      using sound keys ev by (auto simp: queue_sound_def db' s_def)
    ultimately show ?thesis using agree Got out by (auto simp: counters_agree_def count_delivery_def)
  next
    case (Unavailable msg)
    from spec Unavailable d obtain n nx t a where db': "db' = postpone P n msg nx t k a db" and out: "out = Inr False"
      by auto
    have "\<exists>a. gd_audits db' = insert_audit P a (gd_audits db) \<and> au_action a = ''EVENT_QUEUE_RETRY_SCHEDULED''"
      using ad Unavailable out by (auto simp: after_delivery_def commit_then_def retry_writes_def Let_def
          gw_commit_audits split: prod.splits option.splits if_splits)
    then obtain b where "gd_audits db' = insert_audit P b (gd_audits db)" "au_action b = ''EVENT_QUEUE_RETRY_SCHEDULED''"
      by blast
    moreover have "delivery_count db' = delivery_count db"
      by (intro delivery_count_same [OF keys]) (simp add: db')
    moreover have "queue_sound db'" using sound keys by (simp add: queue_sound_def db')
    ultimately show ?thesis using agree Unavailable out by (auto simp: counters_agree_def count_delivery_def)
  next
    case (Crashed msg)
    with spec sound agree show ?thesis by (auto simp: count_delivery_def)
  qed
qed

lemma process_event_counters:
  assumes "counters_inv g" and "tk_others tk = id"
  shows "counters_inv (snd (process_event P st tk call k g))"
proof (cases "get_delivery k (gw_db g)")
  case None
  with assms show ?thesis by (simp add: process_event_def)
next
  case (Some d)
  have sound: "queue_sound (gw_db g)" "counters_agree (gw_metrics g) (gw_db g)"
    using assms(1) by (simp_all add: counters_inv_def)
  with Some obtain ev where ev: "get_event k (gw_db g) = Some ev"
    using queue_soundD [of "gw_db g" k] by (cases "get_event k (gw_db g)") auto
  let ?e = "(tk_env tk)\<lparr>trace := normalize_trace_id (tk_fresh tk) (Some (pd_trace d))\<rparr>"
  obtain res cl where call: "call (trace ?e) (pd_payload d) (gw_client g) = (res, cl)" by fastforce
  obtain out db where ad: "after_delivery P st ?e (tk_jitter tk) d ev res (gw_db g) = (out, db)" by fastforce
  from after_delivery_counters [OF ad ev Some sound] Some ev call ad assms(2) show ?thesis
    by (simp add: process_event_def counters_inv_def)
qed

lemma process_all_counters:
  assumes "counters_inv g" and "\<forall>i. tk_others (tks i) = id"
  shows "counters_inv (snd (process_all P st tks call ks i n g))"
  using assms(1)
proof (induction ks arbitrary: i n g)
  case Nil
  then show ?case by simp
next
  case (Cons k ks)
  obtain out g' where pe: "process_event P st (tks i) call k g = (out, g')" by fastforce
  from process_event_counters [OF Cons.prems, of "tks i" P st call k] assms(2) pe have "counters_inv g'" by simp
  with Cons.IH pe show ?case by (cases out) auto
qed

section \<open>Runs of a process\<close>

lemma set_depth_counters [simp]: "counters_inv (set_depth g) = counters_inv g"
  by (simp add: counters_inv_def counters_agree_def set_depth_def)

lemma act_counters:
  assumes "action_ok ok a" and "counters_inv g"
  shows "counters_inv (act P st call a g)"
proof (cases a)
  case (Submit e c)
  with assms submit_counters show ?thesis by simp
next
  case (Poll t tks)
  let ?ks = "due_event_ids (st_batch_size st) t (gw_db g)"
  obtain out g' where pa: "process_all P st tks call ?ks 0 0 (set_depth g) = (out, g')" by fastforce
  from process_all_counters [of "set_depth g" tks P st call ?ks 0 0] assms Poll pa have "counters_inv g'" by simp
  with Poll pa show ?thesis by (cases out) (simp_all add: process_once_def)
qed



end
