(* ===== verification/Startup.thy ===== *)
theory Startup
  imports Observability "HOL-Library.Monad_Syntax"
begin

text \<open>
  From the process environment to a running service: \<open>Settings\<close> and \<open>get_settings\<close> of \<open>core/config.py\<close>, what
  \<open>db/session.py\<close>, \<open>clients/account_service.py\<close> and the module level of \<open>main.py\<close> build from them, and the
  parts that ask for the settings later. Where the settings library finds the text of a setting, and how it
  reads a number or a flag from it, are parameters.
\<close>

section \<open>Settings from the environment\<close>

text \<open>
  The settings library over one environment: the text of a field, from a variable or from the file \<open>.env\<close>, if there is
  one, and the values of a text as an \<open>int\<close>, a finite \<open>float\<close> and a \<open>bool\<close>; \<open>None\<close> where it rejects the text.
\<close>

record settings_source =
  ss_text :: "string \<Rightarrow> string option"
  ss_int :: "string \<Rightarrow> int option"
  ss_float :: "string \<Rightarrow> rat option"
  ss_bool :: "string \<Rightarrow> bool option"

text \<open>One field: its default, or the value of the text that was found.\<close>

definition setting :: "settings_source \<Rightarrow> string \<Rightarrow> (string \<Rightarrow> 'a option) \<Rightarrow> 'a \<Rightarrow> 'a option" where
  "setting src name conv dflt = (case ss_text src name of None \<Rightarrow> Some dflt | Some s \<Rightarrow> conv s)"

definition read_app_settings :: "settings_source \<Rightarrow> app_settings \<Rightarrow> app_settings option" where
  "read_app_settings src dflt = do {
     name \<leftarrow> setting src ''service_name'' Some (as_service_name dflt);
     url \<leftarrow> setting src ''database_url'' Some (as_database_url dflt);
     otel \<leftarrow> setting src ''otel_enabled'' (ss_bool src) (as_otel_enabled dflt);
     endpoint \<leftarrow> setting src ''otel_exporter_otlp_endpoint'' Some (as_otel_endpoint dflt);
     otel_timeout \<leftarrow> setting src ''otel_export_timeout_seconds'' (ss_float src) (as_otel_timeout dflt);
     version \<leftarrow> setting src ''otel_service_version'' Some (as_otel_version dflt);
     environment \<leftarrow> setting src ''otel_environment'' Some (as_otel_environment dflt);
     excluded \<leftarrow> setting src ''otel_excluded_urls'' Some (as_otel_excluded dflt);
     level \<leftarrow> setting src ''log_level'' Some (as_log_level dflt);
     Some \<lparr>as_service_name = name, as_database_url = url, as_otel_enabled = otel, as_otel_endpoint = endpoint,
       as_otel_timeout = otel_timeout, as_otel_version = version, as_otel_environment = environment,
       as_otel_excluded = excluded, as_log_level = level\<rparr> }"

definition read_client_settings :: "settings_source \<Rightarrow> settings option" where
  "read_client_settings src = do {
     max_attempts \<leftarrow> setting src ''account_service_max_attempts'' (ss_int src) (st_max_attempts default_settings);
     threshold \<leftarrow> setting src ''circuit_breaker_failure_threshold'' (ss_int src) (st_failure_threshold default_settings);
     recovery \<leftarrow> setting src ''circuit_breaker_recovery_seconds'' (ss_float src) (st_recovery_seconds default_settings);
     limited \<leftarrow> setting src ''rate_limit_enabled'' (ss_bool src) (st_rate_limit_enabled default_settings);
     requests \<leftarrow> setting src ''rate_limit_requests'' (ss_int src) (st_rate_limit_requests default_settings);
     window \<leftarrow> setting src ''rate_limit_window_seconds'' (ss_float src) (st_rate_limit_window default_settings);
     fallback \<leftarrow> setting src ''async_fallback_enabled'' (ss_bool src) (st_fallback_enabled default_settings);
     poll \<leftarrow> setting src ''async_fallback_poll_seconds'' (ss_float src) (st_poll_seconds default_settings);
     batch \<leftarrow> setting src ''async_fallback_batch_size'' (ss_int src) (st_batch_size default_settings);
     base \<leftarrow> setting src ''async_fallback_base_backoff_seconds'' (ss_float src) (st_base_backoff default_settings);
     maximum \<leftarrow> setting src ''async_fallback_max_backoff_seconds'' (ss_float src) (st_max_backoff default_settings);
     jitter \<leftarrow> setting src ''async_fallback_jitter_seconds'' (ss_float src) (st_jitter default_settings);
     Some \<lparr>st_max_attempts = max_attempts, st_failure_threshold = threshold, st_recovery_seconds = recovery,
       st_rate_limit_enabled = limited, st_rate_limit_requests = requests, st_rate_limit_window = window,
       st_fallback_enabled = fallback, st_poll_seconds = poll, st_batch_size = batch, st_base_backoff = base,
       st_max_backoff = maximum, st_jitter = jitter\<rparr> }"

text \<open>The \<open>Settings\<close> of the two services.\<close>

record gateway_settings =
  gs_app :: app_settings
  gs_client :: settings
  gs_account_url :: string
  gs_account_timeout :: rat

record account_settings =
  acs_app :: app_settings
  acs_recent_limit :: int

definition default_gateway_settings :: gateway_settings where
  "default_gateway_settings = \<lparr>gs_app = gateway_app_settings, gs_client = default_settings,
     gs_account_url = ''http://localhost:8081'', gs_account_timeout = 2\<rparr>"

definition load_gateway_settings :: "settings_source \<Rightarrow> exn + gateway_settings" where
  "load_gateway_settings src = (case do {
       app \<leftarrow> read_app_settings src gateway_app_settings;
       url \<leftarrow> setting src ''account_service_url'' Some (gs_account_url default_gateway_settings);
       tmo \<leftarrow> setting src ''account_service_timeout_seconds'' (ss_float src) (gs_account_timeout default_gateway_settings);
       client \<leftarrow> read_client_settings src;
       Some \<lparr>gs_app = app, gs_client = client, gs_account_url = url, gs_account_timeout = tmo\<rparr> }
     of None \<Rightarrow> Inl (OtherException ''ValidationError'') | Some cfg \<Rightarrow> Inr cfg)"

definition load_account_settings :: "settings_source \<Rightarrow> exn + account_settings" where
  "load_account_settings src = (case do {
       app \<leftarrow> read_app_settings src account_app_settings;
       limit \<leftarrow> setting src ''recent_transactions_limit'' (ss_int src) recent_transactions_limit;
       Some \<lparr>acs_app = app, acs_recent_limit = limit\<rparr> }
     of None \<Rightarrow> Inl (OtherException ''ValidationError'') | Some cfg \<Rightarrow> Inr cfg)"

text \<open>
  \<open>get_settings\<close> under \<open>lru_cache\<close>: the first call that returns fills the cache, a call that raises does not.
\<close>

definition get_settings :: "(settings_source \<Rightarrow> exn + 'c) \<Rightarrow> settings_source \<Rightarrow> 'c option \<Rightarrow> (exn + 'c) \<times> 'c option" where
  "get_settings load src cache = (case cache of
     Some cfg \<Rightarrow> (Inr cfg, cache)
   | None \<Rightarrow> (case load src of Inl e \<Rightarrow> (Inl e, None) | Inr cfg \<Rightarrow> (Inr cfg, Some cfg)))"

definition get_gateway_settings ::
  "settings_source \<Rightarrow> gateway_settings option \<Rightarrow> (exn + gateway_settings) \<times> gateway_settings option" where
  "get_gateway_settings = get_settings load_gateway_settings"

definition get_account_settings ::
  "settings_source \<Rightarrow> account_settings option \<Rightarrow> (exn + account_settings) \<times> account_settings option" where
  "get_account_settings = get_settings load_account_settings"

section \<open>What is built from the settings\<close>

text \<open>The arguments of \<open>create_engine\<close>.\<close>

record engine_args =
  en_url :: string
  en_connect_args :: "(string \<times> bool) list"

definition engine_of :: "app_settings \<Rightarrow> engine_args" where
  "engine_of cfg = \<lparr>en_url = as_database_url cfg, en_connect_args = connect_args cfg\<rparr>"

text \<open>The client of the account service, made when its module is loaded, without arguments.\<close>

record account_client =
  ac_settings :: gateway_settings
  ac_breaker :: breaker

definition new_account_client ::
  "gateway_settings option \<Rightarrow> settings_source \<Rightarrow> gateway_settings option \<Rightarrow> (exn + account_client) \<times> gateway_settings option" where
  "new_account_client given src cache =
     (case (case given of Some cfg \<Rightarrow> (Inr cfg, cache) | None \<Rightarrow> get_gateway_settings src cache) of
        (Inl e, cache') \<Rightarrow> (Inl e, cache')
      | (Inr cfg, cache') \<Rightarrow> (Inr \<lparr>ac_settings = cfg, ac_breaker = new_breaker (gs_client cfg)\<rparr>, cache'))"

text \<open>The settings the worker and the event service keep: the worker's are passed by the start-up handler.\<close>

definition worker_settings ::
  "gateway_settings option \<Rightarrow> settings_source \<Rightarrow> gateway_settings option \<Rightarrow> (exn + gateway_settings) \<times> gateway_settings option" where
  "worker_settings given src cache =
     (case given of Some cfg \<Rightarrow> (Inr cfg, cache) | None \<Rightarrow> get_gateway_settings src cache)"

definition event_service_settings ::
  "settings_source \<Rightarrow> gateway_settings option \<Rightarrow> (exn + gateway_settings) \<times> gateway_settings option" where
  "event_service_settings src cache = get_gateway_settings src cache"

section \<open>The start of a process\<close>

text \<open>
  A loaded gateway. The modules that \<open>main.py\<close> imports ask for the settings first: \<open>db/session.py\<close> for
  the engine, \<open>clients/account_service.py\<close> for the client.
\<close>

record gateway_instance =
  gi_settings :: gateway_settings
  gi_cache :: "gateway_settings option"
  gi_engine :: engine_args
  gi_client :: account_client
  gi_limiter :: limiter
  gi_lifecycle :: lifecycle

definition gateway_main :: "platform \<Rightarrow> engine_args \<Rightarrow> account_client \<Rightarrow> gateway_settings option \<Rightarrow> gateway_settings
    \<Rightarrow> root_logger \<Rightarrow> (exn + gateway_instance) \<times> root_logger" where
  "gateway_main P engine client cache cfg lg =
     (case configure_logging P ''event-gateway'' (as_log_level (gs_app cfg)) lg of
        (Inl e, lg') \<Rightarrow> (Inl e, lg')
      | (Inr _, lg') \<Rightarrow>
         (case make_limiter (st_rate_limit_requests (gs_client cfg)) (st_rate_limit_window (gs_client cfg)) of
            Inl e \<Rightarrow> (Inl e, lg')
          | Inr limiter \<Rightarrow> (Inr \<lparr>gi_settings = cfg, gi_cache = cache, gi_engine = engine, gi_client = client,
              gi_limiter = limiter, gi_lifecycle = gateway_boot (gs_app cfg)\<rparr>, lg')))"

definition gateway_start :: "platform \<Rightarrow> settings_source \<Rightarrow> root_logger \<Rightarrow> (exn + gateway_instance) \<times> root_logger" where
  "gateway_start P src lg =
     (case get_gateway_settings src None of
        (Inl e, _) \<Rightarrow> (Inl e, lg)
      | (Inr session_cfg, cache1) \<Rightarrow>
         (case new_account_client None src cache1 of
            (Inl e, _) \<Rightarrow> (Inl e, lg)
          | (Inr client, cache2) \<Rightarrow>
             (case get_gateway_settings src cache2 of
                (Inl e, _) \<Rightarrow> (Inl e, lg)
              | (Inr cfg, cache3) \<Rightarrow> gateway_main P (engine_of (gs_app session_cfg)) client cache3 cfg lg)))"

record account_instance =
  ai_settings :: account_settings
  ai_cache :: "account_settings option"
  ai_engine :: engine_args
  ai_tracing :: "tracer_provider option \<times> telemetry"

definition account_start :: "platform \<Rightarrow> settings_source \<Rightarrow> root_logger \<Rightarrow> (exn + account_instance) \<times> root_logger" where
  "account_start P src lg =
     (case get_account_settings src None of
        (Inl e, _) \<Rightarrow> (Inl e, lg)
      | (Inr session_cfg, cache1) \<Rightarrow>
         (case get_account_settings src cache1 of
            (Inl e, _) \<Rightarrow> (Inl e, lg)
          | (Inr cfg, cache2) \<Rightarrow>
             (case configure_logging P ''account-service'' (as_log_level (acs_app cfg)) lg of
                (Inl e, lg') \<Rightarrow> (Inl e, lg')
              | (Inr _, lg') \<Rightarrow> (Inr \<lparr>ai_settings = cfg, ai_cache = cache2, ai_engine = engine_of (acs_app session_cfg),
                  ai_tracing = account_boot (acs_app cfg)\<rparr>, lg'))))"

section \<open>Lemmas\<close>

lemma get_settings_cached [simp]: "get_settings load src (Some cfg) = (Inr cfg, Some cfg)"
  by (simp add: get_settings_def)

lemma get_settings_first: "get_settings load src None = (Inr cfg, cache) \<longleftrightarrow> load src = Inr cfg \<and> cache = Some cfg"
  by (auto simp: get_settings_def split: sum.splits)

lemma engine_connect_args:
  "en_connect_args (engine_of cfg) = [] \<longleftrightarrow> \<not> prefix ''sqlite'' (en_url (engine_of cfg))"
  by (simp add: engine_of_def connect_args_def)

text \<open>Without any variable the settings are the defaults; a text that a conversion rejects is an error.\<close>

lemma settings_defaults:
  assumes "\<And>name. ss_text src name = None"
  shows "load_gateway_settings src = Inr default_gateway_settings"
    and "load_account_settings src = Inr \<lparr>acs_app = account_app_settings, acs_recent_limit = recent_transactions_limit\<rparr>"
  using assms
  by (simp_all add: load_gateway_settings_def load_account_settings_def read_app_settings_def read_client_settings_def
      setting_def default_gateway_settings_def)

definition rejects :: "settings_source \<Rightarrow> (string \<Rightarrow> 'a option) \<Rightarrow> string \<Rightarrow> bool" where
  "rejects src conv name \<longleftrightarrow> (case ss_text src name of None \<Rightarrow> False | Some s \<Rightarrow> conv s = None)"

lemma setting_None: "setting src name conv dflt = None \<longleftrightarrow> rejects src conv name"
  by (simp add: setting_def rejects_def split: option.splits)

lemma rejects_str [simp]: "\<not> rejects src Some name"
  by (simp add: rejects_def split: option.splits)

definition int_fields :: "string list" where
  "int_fields = [''account_service_max_attempts'', ''circuit_breaker_failure_threshold'', ''rate_limit_requests'',
     ''async_fallback_batch_size'']"

definition float_fields :: "string list" where
  "float_fields = [''otel_export_timeout_seconds'', ''account_service_timeout_seconds'', ''circuit_breaker_recovery_seconds'',
     ''rate_limit_window_seconds'', ''async_fallback_poll_seconds'', ''async_fallback_base_backoff_seconds'',
     ''async_fallback_max_backoff_seconds'', ''async_fallback_jitter_seconds'']"

definition bool_fields :: "string list" where
  "bool_fields = [''otel_enabled'', ''rate_limit_enabled'', ''async_fallback_enabled'']"

definition readable :: "settings_source \<Rightarrow> bool" where
  "readable src \<longleftrightarrow> \<not> list_ex (rejects src (ss_int src)) int_fields
     \<and> \<not> list_ex (rejects src (ss_float src)) float_fields \<and> \<not> list_ex (rejects src (ss_bool src)) bool_fields"

lemmas reads_None = read_app_settings_def read_client_settings_def Option.bind_eq_None_conv setting_None

lemma sum_of_option: "(\<exists>c. (case x of None \<Rightarrow> Inl e | Some c \<Rightarrow> Inr c) = Inr c) \<longleftrightarrow> x \<noteq> None"
  by (cases x) auto

text \<open>The gateway's settings load exactly when every number and every flag can be read.\<close>

lemma load_gateway_settings_ok: "(\<exists>cfg. load_gateway_settings src = Inr cfg) \<longleftrightarrow> readable src"
  unfolding load_gateway_settings_def sum_of_option
  by (simp add: reads_None readable_def int_fields_def float_fields_def bool_fields_def conj_ac)

text \<open>What a start that succeeds leaves behind.\<close>

lemma gateway_start_facts:
  assumes "gateway_start P src lg = (Inr g, lg')"
  shows "load_gateway_settings src = Inr (gi_settings g)" "gi_cache g = Some (gi_settings g)"
    "gi_engine g = engine_of (gs_app (gi_settings g))"
    "gi_client g = \<lparr>ac_settings = gi_settings g, ac_breaker = new_breaker (gs_client (gi_settings g))\<rparr>"
    "make_limiter (st_rate_limit_requests (gs_client (gi_settings g))) (st_rate_limit_window (gs_client (gi_settings g)))
      = Inr (gi_limiter g)"
    "gi_lifecycle g = gateway_boot (gs_app (gi_settings g))"
    "\<exists>n. level_number (str_upper P (as_log_level (gs_app (gi_settings g)))) = Some n
      \<and> lg' = lg\<lparr>lg_handlers := [''event-gateway''], lg_level := n\<rparr>"
  using assms
  by (auto simp: gateway_start_def gateway_main_def get_gateway_settings_def get_settings_def new_account_client_def
      configure_logging_def Let_def split: sum.splits option.splits prod.splits)

text \<open>
  Which environments start a gateway: numbers and flags that can be read, a level that logging knows, and a
  rate limit in its range, also when the rate limit is disabled. No other setting is checked.
\<close>

lemma gateway_start_iff:
  "(\<exists>g. fst (gateway_start P src lg) = Inr g) \<longleftrightarrow>
     (case load_gateway_settings src of Inl _ \<Rightarrow> False
      | Inr cfg \<Rightarrow> level_number (str_upper P (as_log_level (gs_app cfg))) \<noteq> None
          \<and> 1 \<le> st_rate_limit_requests (gs_client cfg) \<and> 0 < st_rate_limit_window (gs_client cfg))"
  by (auto simp: gateway_start_def gateway_main_def get_gateway_settings_def get_settings_def new_account_client_def
      configure_logging_def make_limiter_def Let_def split: sum.splits option.splits prod.splits)

lemma account_start_iff:
  "(\<exists>a. fst (account_start P src lg) = Inr a) \<longleftrightarrow>
     (case load_account_settings src of Inl _ \<Rightarrow> False
      | Inr cfg \<Rightarrow> level_number (str_upper P (as_log_level (acs_app cfg))) \<noteq> None)"
  by (auto simp: account_start_def get_account_settings_def get_settings_def configure_logging_def Let_def
      split: sum.splits option.splits prod.splits)

lemma account_start_facts:
  assumes "account_start P src lg = (Inr a, lg')"
  shows "load_account_settings src = Inr (ai_settings a) \<and> get_account_settings src' (ai_cache a) = (Inr (ai_settings a), ai_cache a)
    \<and> ai_engine a = engine_of (acs_app (ai_settings a)) \<and> ai_tracing a = account_boot (acs_app (ai_settings a))"
  using assms
  by (auto simp: account_start_def get_account_settings_def get_settings_def Let_def split: sum.splits option.splits prod.splits)

text \<open>
  With no attempts configured the client never sends anything: every call ends as unavailable, so every
  new event is queued and no delivery ever succeeds.
\<close>

lemma no_attempts_no_call:
  assumes "st_max_attempts st \<le> 0"
  shows "\<exists>m. request_call st send clk jit rq c = (Unavailable m, c)"
  using assms by (simp add: request_call_def)

section \<open>Samples\<close>

text \<open>An environment that sets two variables; numbers are read as decimal digits.\<close>

definition digits_value :: "string \<Rightarrow> int option" where
  "digits_value s = (if s \<noteq> [] \<and> list_all (\<lambda>c. CHR ''0'' \<le> c \<and> c \<le> CHR ''9'') s
     then Some (fold (\<lambda>c n. 10 * n + (of_char c - 48)) s 0) else None)"

definition sample_source :: "(string \<times> string) list \<Rightarrow> settings_source" where
  "sample_source vars = \<lparr>ss_text = map_of vars, ss_int = digits_value,
     ss_float = (\<lambda>s. map_option of_int (digits_value s)),
     ss_bool = map_of [(''true'', True), (''false'', False)]\<rparr>"

definition sample_logger :: root_logger where
  "sample_logger = \<lparr>lg_handlers = [], lg_level = 30\<rparr>"

lemma sample_start:
  "case gateway_start exact_platform (sample_source [(''account_service_max_attempts'', ''0''), (''log_level'', ''debug'')])
      sample_logger of
     (Inr g, lg) \<Rightarrow> st_max_attempts (gs_client (gi_settings g)) = 0 \<and> rl_limit (gi_limiter g) = 120
       \<and> lg = \<lparr>lg_handlers = [''event-gateway''], lg_level = 10\<rparr>
   | _ \<Rightarrow> False"
  by code_simp

definition start_failure :: "(string \<times> string) list \<Rightarrow> string option" where
  "start_failure vars = (case gateway_start exact_platform (sample_source vars) sample_logger of
     (Inl (OtherException m), _) \<Rightarrow> Some m | _ \<Rightarrow> None)"

lemma sample_start_fails:
  "start_failure [(''rate_limit_enabled'', ''false''), (''rate_limit_requests'', ''0'')] = Some ''limit must be at least 1''"
  "start_failure [(''rate_limit_requests'', ''many'')] = Some ''ValidationError''"
  "start_failure [(''log_level'', ''loud'')] = Some ''ValueError''"
  by code_simp+

section \<open>Properties\<close>

text \<open>The life of a process after its start.\<close>

definition process_phases :: "gateway_instance \<Rightarrow> phase list \<Rightarrow> lifecycle" where
  "process_phases g ps = fold (lifecycle_step (gs_client (gi_settings g))) ps (gi_lifecycle g)"

lemma make_limiter_Inr: "make_limiter l w = Inr L
    \<longleftrightarrow> 1 \<le> l \<and> 0 < w \<and> L = \<lparr>rl_limit = l, rl_window = w, rl_requests = Map.empty\<rparr>"
  by (auto simp: make_limiter_def)

lemma process_phases_started:
  assumes "gateway_start P src lg = (Inr g, lg')"
  shows "process_phases g ps = after_phases (gs_app (gi_settings g)) (gs_client (gi_settings g)) ps"
  by (simp add: process_phases_def after_phases_def gateway_start_facts(6) [OF assms])

text \<open>
  C31. One configuration, one limiter, one worker: a gateway that starts has read its settings once, and
  its client, worker and event services work with exactly these for the rest of the process, whatever the
  environment becomes; its rate limiter is empty and in range and its circuit closed. Over any sequence of
  start-ups and shutdowns that follows, however the worker's tasks end, the tasks that run are exactly the
  one the application holds, if any; a start-up leaves exactly one running when the fallback is enabled and
  none otherwise, a second start-up does not add another, and a shutdown leaves none. Spans are flushed and
  the provider shut down at every shutdown with tracing enabled, unless the worker had ended with an
  exception, which then aborts the shutdown.
\<close>

theorem one_worker_runs:
  assumes "gateway_start P src lg = (Inr g, lg')"
  shows "let cfg = gi_settings g; st = gs_client cfg; lc = process_phases g ps in
    load_gateway_settings src = Inr cfg \<and> ac_settings (gi_client g) = cfg
    \<and> event_service_settings src' (gi_cache g) = (Inr cfg, gi_cache g)
    \<and> worker_settings (Some cfg) src' (gi_cache g) = (Inr cfg, gi_cache g)
    \<and> allow t (ac_breaker (gi_client g))
    \<and> 1 \<le> rl_limit (gi_limiter g) \<and> 0 < rl_window (gi_limiter g) \<and> rl_requests (gi_limiter g) = Map.empty
    \<and> lg_handlers lg' = [''event-gateway'']
    \<and> lc_running lc = (case lc_task lc of None \<Rightarrow> [] | Some n \<Rightarrow> [n])
    \<and> length (lc_running (startup st lc)) = (if st_fallback_enabled st then 1 else 0)
    \<and> startup st (startup st lc) = startup st lc
    \<and> lc_running (snd (shutdown wtd lc)) = []
    \<and> te_calls (lc_telemetry (snd (shutdown wtd lc))) = te_calls (lc_telemetry lc)
        @ (if as_otel_enabled (gs_app cfg) \<and> fst (shutdown wtd lc) = None then [ForceFlush 5000, ShutdownProvider] else [])"
proof -
  note started = gateway_start_facts [OF assms]
  have one: "one_worker (gs_app (gi_settings g)) (gs_client (gi_settings g)) (process_phases g ps)"
    by (simp add: process_phases_started [OF assms] after_phases_one_worker)
  then have running: "lc_running (process_phases g ps) = (case lc_task (process_phases g ps) of None \<Rightarrow> [] | Some n \<Rightarrow> [n])"
    by (simp add: one_worker_def)
  from started(5) have lim: "1 \<le> rl_limit (gi_limiter g)" "0 < rl_window (gi_limiter g)"
      "rl_requests (gi_limiter g) = Map.empty"
    by (simp_all add: make_limiter_Inr)
  from started(7) have "lg_handlers lg' = [''event-gateway'']" by auto
  with started(1,2,4) lim running one_worker_next [OF one] show ?thesis
    by (simp add: Let_def event_service_settings_def worker_settings_def get_gateway_settings_def allow_def new_breaker_def)
qed

theorem one_worker_runs_witness:
  "\<exists>g lg'. gateway_start exact_platform (sample_source []) sample_logger = (Inr g, lg')
     \<and> length (lc_running (startup (gs_client (gi_settings g)) (process_phases g [Startup, Shutdown TimedOut, Startup, Startup])))
       = 1"
proof -
  have loaded: "load_gateway_settings (sample_source []) = Inr default_gateway_settings"
    by (rule settings_defaults) (simp add: sample_source_def)
  have "level_number (str_upper exact_platform (as_log_level gateway_app_settings)) = Some 20" by code_simp
  with loaded have "\<exists>g. fst (gateway_start exact_platform (sample_source []) sample_logger) = Inr g"
    by (simp add: gateway_start_iff default_gateway_settings_def)
  then obtain g lg' where g: "gateway_start exact_platform (sample_source []) sample_logger = (Inr g, lg')"
    by (auto simp: prod_eq_iff)
  with loaded have "gi_settings g = default_gateway_settings"
    using gateway_start_facts(1) [OF g] by simp
  with g one_worker_runs [OF g, where ps = "[Startup, Shutdown TimedOut, Startup, Startup]"] show ?thesis
    by (auto simp: Let_def default_gateway_settings_def)
qed

end
