(* ===== verification/Spec2Isabelle.thy ===== *)
theory Spec2Isabelle
  imports AccountLedger TracePropagation AuditReplay WorkerLoop AccountRoutes QueueMetrics Startup
begin

text \<open>
  Event Ledger: a verification library for the two services of this repository.

  The program. Clients send financial events to the gateway (\<open>event-gateway/app\<close>), which stores them
  and calls the account service (\<open>account-service/app\<close>) to apply each event once to an account. When the
  account service is unavailable the gateway queues the event and a background worker delivers it later.
  Both services keep an audit trail, carry a trace id through every request and answer errors in one
  format; the gateway limits the rate of requests of each client.

  The theories, in the order of their imports.
    \<^item> \<open>Prelude\<close>: tables under a primary key, the locales \<open>keyed_table\<close> and \<open>invariant_machine\<close>.
    \<^item> \<open>PyTypes\<close>: Python values (money, datetimes, JSON) and the \<open>platform\<close> record of what libraries
      outside the repository compute.
    \<^item> \<open>Web\<close>: \<open>core/tracing.py\<close> and \<open>core/errors.py\<close> of both services.
    \<^item> \<open>Schemas\<close>: the request models \<open>schemas/events.py\<close> and \<open>schemas/accounts.py\<close> with their
      validation, and the payload the gateway sends.
    \<^item> \<open>AuditTrail\<close>: \<open>repositories/audit.py\<close>, the audit table, route and response model.
    \<^item> \<open>AccountDb\<close>, \<open>AccountService\<close>: tables, session, repository, \<open>AccountService.apply\<close> and the routes
      of the account service; the abstract ledger and the refinement of it.
    \<^item> \<open>AccountLedger\<close>: the properties of the account service.
    \<^item> \<open>RateLimit\<close>: \<open>core/rate_limit.py\<close> and the middleware of \<open>main.py\<close>.
    \<^item> \<open>Client\<close>: the circuit breaker and the retry loop of \<open>clients/account_service.py\<close>.
    \<^item> \<open>GatewayDb\<close>, \<open>EventService\<close>: tables and repositories of the gateway, \<open>EventService.submit\<close>, the
      routes, and the properties of one submission.
    \<^item> \<open>AsyncFallback\<close>: the worker of \<open>services/async_fallback.py\<close>.
    \<^item> \<open>GatewaySystem\<close>: handlers and worker interleaved, attempt by attempt, as an inductive step
      relation; its invariant; the code's sequential runs as runs of it.
    \<^item> \<open>Reconciliation\<close>: the locale \<open>transaction_provider\<close>, what the gateway relies on at each turn of a call to
      the account service, and the agreement of records and books that follows for every reachable state.
    \<^item> \<open>EndToEnd\<close>: the account service behind its routes, a network that loses and delays messages, the
      client over it; the interpretation \<open>account_books\<close> proves the contract of \<open>transaction_provider\<close> for this code.
    \<^item> \<open>Observability\<close>: settings, \<open>core/telemetry.py\<close>, \<open>core/logging.py\<close>, and the start and stop of the
      worker in \<open>main.py\<close>.
    \<^item> \<open>Startup\<close>: \<open>Settings\<close> and \<open>get_settings\<close> of \<open>core/config.py\<close> over the environment, and the module level
      of \<open>main.py\<close>: which environments start a process, and what it works with.
    \<^item> \<open>HandlerLog\<close>: the log records of the handlers and of the worker, and what they tell.
    \<^item> \<open>Applications\<close>, \<open>GatewayRoutes\<close>: the middleware that counts and logs, the two stacks of middlewares
      and exception handlers of \<open>main.py\<close>, the health checks, and the gateway's routes behind its stack.
    \<^item> \<open>TracePropagation\<close>: the trace id of a submission across both services.
    \<^item> \<open>AuditReplay\<close>: the audit trail of an event replayed to its state, over the reachable states.
    \<^item> \<open>WorkerLoop\<close>: \<open>AsyncFallbackWorker.run\<close> with its stop event, and when it returns.
    \<^item> \<open>AccountRoutes\<close>: the account service's routes behind its stack, as the gateway's network calls them.
    \<^item> \<open>QueueMetrics\<close>: the counters of the queue and the events they count.

  State and operations. A database is a record of tables, a table the list of its rows; a session's
  commit executes its writes in order, all or none. A handler is a function from the request, the
  surroundings (clock, trace id) and the database to its answer or exception and the new database.
  Suspension points are explicit: what other sessions commit at them is an argument of the handler, and
  in \<open>GatewaySystem\<close> a step boundary. An exception is a value of the datatype \<open>exn\<close>. The process of a
  service (\<open>Applications.process\<close>) adds the trace context, the counters, the log and the limiter.

  The lemmas. Per table: lookup after each write (\<open>table_simps\<close>), and what a write leaves alone
  (\<open>frame_simps\<close>). Per handler: its commits evaluated, then one lemma for each stage of it (such as
  \<open>submit_start_inserts\<close>, \<open>after_call_spec\<close>, \<open>after_delivery_spec\<close>), from which its properties, the
  invariant of the step relation and the reconciliation follow. \<open>AccountService\<close> refines an abstract
  ledger (\<open>refines_ledger\<close>): balances, idempotence and order independence are proved there. Defects of the
  code are stated as theorems too: each shows a concrete run or a general consequence.

  Bounds and fuel. No definition uses fuel. The retry loop is bounded by \<open>max_attempts\<close>. The worker's loop
  may run for ever: \<open>run_worker\<close> is a partial function, and \<open>worker_terminates\<close> says when it returns.
  Amounts are exact below \<open>10 ^ 19\<close> units where a theorem says so.

  Assumptions, where a theorem names them. \<open>exact_columns\<close>: numeric columns are exact and timestamp
  columns keep the instant. \<open>transmit\<close>: an intermediary answers with 502, 503 or 504 only; a message to the
  account service may be lost before or after it was handled, or delayed and handled at any later time
  (\<open>arrives_late\<close>, the rule \<open>elsewhere\<close> of the step relation); and the account service handles
  one request at a time (its own races are in \<open>AccountLedger\<close>). An attempt of the client, from its request to its answer, is one step of
  \<open>GatewaySystem\<close>; the attempts of different handlers and of the worker interleave.
  So is a handler before its call and after it, with the commits made there; a handler may be cut off
  between these steps, and also between the commit of an event and the commit of its audit record
  (\<open>stored_only\<close>, \<open>saved_only\<close>); \<open>AuditReplay\<close> says how far the trail is then behind.
  \<open>documented_build\<close>: the middleware registered last runs first.

  Not modelled: where the settings library looks for a text and how it converts one (parameters of
  \<open>Startup\<close>); coercion of JSON texts into typed values by the validation library; collisions of random
  ids; the internals of the database, HTTP, logging and metrics libraries, and the text of the metrics page,
  which is a parameter. All clock readings of one request are one instant except
  in the client and the access log; the reads of one request see one state of the database;
  floating-point seconds are rationals; strings are lists of characters below code point 256.
\<close>

end
